theory Spec2Isabelle
  imports Main "HOL-Library.Signed_Division"
begin

section \<open>csv-peek: line navigation and viewport rendering\<close>

text \<open>
  \<^verbatim>\<open>src/main.go\<close> holds two revisions of the program. The first (lines 1--533) keeps
  one maximum width per column (\<^verbatim>\<open>maxWidth []int\<close>) and leaves the cursor in the
  file's own seek offset; the second (lines 534--985) keeps one scalar \<^verbatim>\<open>maxWidth\<close>
  with a \<^verbatim>\<open>maxFields\<close> count and mirrors the cursor in \<^verbatim>\<open>currentOffset\<close>.
  Definitions of the first revision carry the source's names; those of the second
  revision carry the same names followed by a prime.

  Conventions of the embedding:
  \<^item> a file is its byte sequence, a \<open>char list\<close> (HOL's \<open>char\<close> is a byte);
  \<^item> Go's \<^verbatim>\<open>int\<close> and \<^verbatim>\<open>int64\<close> are \<open>int\<close>: every value here is bounded by a file
    size or a terminal dimension, so no operation comes near 64-bit overflow;
  \<^item> a Go string that is measured or sliced through \<^verbatim>\<open>utf8.RuneCountInString\<close> or
    \<^verbatim>\<open>[]rune(...)\<close> is the list of its code points;
  \<^item> a run-time panic (\<^verbatim>\<open>fatalIfErr\<close>, \<^verbatim>\<open>log.Fatalln\<close>, an index or a slice out of
    range) is the value \<open>Inl e\<close> of a result \<open>fatal + 'a\<close>;
  \<^item> \<^verbatim>\<open>Seek\<close> to a non-negative offset of a regular file and \<^verbatim>\<open>termSize\<close> on a
    terminal succeed; the terminal's size and the record parser of \<^verbatim>\<open>encoding/csv\<close>
    belong to the environment \<open>env\<close>.
\<close>

subsection \<open>Data model\<close>

type_synonym rune = nat

type_synonym gostring = "rune list"

type_synonym csv_record = "gostring list"

datatype fatal =
    ErrEOF
  | ErrNegativeOffset
  | ErrIndexOutOfRange
  | ErrSliceBounds
  | ErrNegativeRepeat
  | ErrCsv
  | ErrOpen

text \<open>What one call of \<^verbatim>\<open>reader.Read()\<close> yields before end of file: a record or an
  error other than \<^verbatim>\<open>io.EOF\<close>. The end of the list is \<^verbatim>\<open>io.EOF\<close>.\<close>

datatype csv_item = Rec csv_record | Bad

record env =
  comma :: string
  termWidth :: int
  termHeight :: int
  csvRead :: "char \<Rightarrow> char list \<Rightarrow> int \<Rightarrow> csv_item list"

text \<open>First revision: \<^verbatim>\<open>type Pager struct\<close> (lines 34--40). The \<^verbatim>\<open>*os.File\<close> is its
  content together with its seek offset.\<close>

record Pager =
  horizontalShift :: int
  maxWidth :: "int list"
  fileBytes :: "char list"
  fileOffset :: int
  prevPrintableLines :: "gostring list option"

text \<open>Second revision: \<^verbatim>\<open>type Pager struct\<close> (lines 567--574).\<close>

record Pager' =
  currentOffset' :: int
  horizontalShift' :: int
  maxFields' :: int
  maxWidth' :: int
  fileBytes' :: "char list"
  fileOffset' :: int

subsection \<open>Byte cursor navigator\<close>

definition NL :: char where
  "NL = CHR 0x0A"

text \<open>\<^verbatim>\<open>p.file.ReadAt(b, off)\<close> with a one-byte buffer.\<close>

definition readAt :: "char list \<Rightarrow> int \<Rightarrow> fatal + char" where
  "readAt bs off =
     (if off < 0 then Inl ErrNegativeOffset
      else if int (length bs) \<le> off then Inl ErrEOF
      else Inr (bs ! nat off))"

text \<open>The \<^verbatim>\<open>for\<close> loop of \<^verbatim>\<open>seekBackLine\<close> (lines 365--386 and 862--885); \<open>res\<close>,
  \<open>enteredNL\<close> and \<open>enteredText\<close> are the loop's variables.\<close>

function seekBackScan :: "char list \<Rightarrow> bool \<Rightarrow> bool \<Rightarrow> int \<Rightarrow> fatal + int" where
  "seekBackScan bs enteredNL enteredText res =
     (if res \<le> 0 then Inr 0
      else case readAt bs res of
             Inl e \<Rightarrow> Inl e
           | Inr b \<Rightarrow>
               if b = NL \<and> \<not> enteredNL then seekBackScan bs True enteredText (res - 1)
               else if b \<noteq> NL \<and> enteredNL then seekBackScan bs enteredNL True (res - 1)
               else if b = NL \<and> enteredText then Inr (res + 1)
               else seekBackScan bs enteredNL enteredText (res - 1))"
  by pat_completeness auto
termination
  by (relation "measure (\<lambda>(bs, enteredNL, enteredText, res). nat res)") auto

declare seekBackScan.simps [simp del]

text \<open>The \<^verbatim>\<open>for\<close> loop of \<^verbatim>\<open>seekForwardLine\<close> (lines 394--413 and 893--914).\<close>

function seekForwardScan :: "char list \<Rightarrow> bool \<Rightarrow> int \<Rightarrow> fatal + int" where
  "seekForwardScan bs enteredNL res =
     (case readAt bs res of
        Inl e \<Rightarrow> (if e = ErrEOF then Inr (int (length bs)) else Inl e)
      | Inr b \<Rightarrow>
          if b = NL \<and> \<not> enteredNL then seekForwardScan bs True (res + 1)
          else if b \<noteq> NL \<and> enteredNL then Inr res
          else seekForwardScan bs enteredNL (res + 1))"
  by pat_completeness auto
termination
  by (relation "measure (\<lambda>(bs, enteredNL, res). nat (int (length bs) - res))")
     (auto simp: readAt_def split: if_splits)

declare seekForwardScan.simps [simp del]

text \<open>\<^verbatim>\<open>Pager.seekBackLine\<close>, first revision (lines 358--387): starts one byte behind
  the file's offset and leaves the file at the result.\<close>

definition seekBackLine :: "Pager \<Rightarrow> fatal + (int \<times> Pager)" where
  "seekBackLine p =
     (case seekBackScan (fileBytes p) False False (fileOffset p - 1) of
        Inl e \<Rightarrow> Inl e
      | Inr res \<Rightarrow> Inr (res, p\<lparr>fileOffset := res\<rparr>))"

text \<open>\<^verbatim>\<open>Pager.seekForwardLine\<close>, first revision (lines 389--414).\<close>

definition seekForwardLine :: "Pager \<Rightarrow> fatal + (int \<times> Pager)" where
  "seekForwardLine p =
     (case seekForwardScan (fileBytes p) False (fileOffset p) of
        Inl e \<Rightarrow> Inl e
      | Inr res \<Rightarrow> Inr (res, p\<lparr>fileOffset := res\<rparr>))"

text \<open>\<^verbatim>\<open>Pager.seekBackLine\<close>, second revision (lines 855--886): as the first, and the
  result is also stored in \<^verbatim>\<open>currentOffset\<close>.\<close>

definition seekBackLine' :: "Pager' \<Rightarrow> fatal + (int \<times> Pager')" where
  "seekBackLine' p =
     (case seekBackScan (fileBytes' p) False False (fileOffset' p - 1) of
        Inl e \<Rightarrow> Inl e
      | Inr res \<Rightarrow> Inr (res, p\<lparr>fileOffset' := res, currentOffset' := res\<rparr>))"

text \<open>\<^verbatim>\<open>Pager.seekForwardLine\<close>, second revision (lines 888--915): the scan starts at
  \<^verbatim>\<open>currentOffset\<close>, to which the file is first moved.\<close>

definition seekForwardLine' :: "Pager' \<Rightarrow> fatal + (int \<times> Pager')" where
  "seekForwardLine' p =
     (case seekForwardScan (fileBytes' p) False (currentOffset' p) of
        Inl e \<Rightarrow> Inl e
      | Inr res \<Rightarrow> Inr (res, p\<lparr>fileOffset' := res, currentOffset' := res\<rparr>))"

subsection \<open>Viewport controller: moving by lines\<close>

text \<open>\<^verbatim>\<open>for i := lo; i < hi; i++ { body }\<close> over a state, stopping at the first panic.\<close>

function forRange :: "int \<Rightarrow> int \<Rightarrow> ('s \<Rightarrow> fatal + 's) \<Rightarrow> 's \<Rightarrow> fatal + 's" where
  "forRange i hi body s =
     (if i < hi then
        (case body s of Inl e \<Rightarrow> Inl e | Inr s' \<Rightarrow> forRange (i + 1) hi body s')
      else Inr s)"
  by pat_completeness auto
termination
  by (relation "measure (\<lambda>(i, hi, body, s). nat (hi - i))") auto

declare forRange.simps [simp del]

text \<open>A call whose returned offset the caller drops, as in \<^verbatim>\<open>p.seekBackLine()\<close>.\<close>

definition dropResult :: "fatal + (int \<times> 's) \<Rightarrow> fatal + 's" where
  "dropResult r = (case r of Inl e \<Rightarrow> Inl e | Inr (res, s) \<Rightarrow> Inr s)"

text \<open>\<^verbatim>\<open>countLinesFitting\<close> (lines 308--311 and 828--831); Go's \<^verbatim>\<open>/\<close> truncates.\<close>

definition countLinesFitting :: "env \<Rightarrow> int" where
  "countLinesFitting e = termHeight e sdiv 2"

text \<open>\<^verbatim>\<open>getNewCSVReader\<close> (lines 521--527 and 973--979): \<^verbatim>\<open>comma[0]\<close> panics on the
  empty string; otherwise the reader yields what the parser of the environment reads
  from the file's offset with that delimiter.\<close>

definition getNewCSVReader :: "env \<Rightarrow> char list \<Rightarrow> int \<Rightarrow> fatal + csv_item list" where
  "getNewCSVReader e bs off =
     (case comma e of
        [] \<Rightarrow> Inl ErrIndexOutOfRange
      | c # cs \<Rightarrow> Inr (csvRead e c bs off))"

text \<open>The loop of \<^verbatim>\<open>countLinesAvailable\<close> (lines 424--433).\<close>

fun countLinesAvailable_loop :: "int \<Rightarrow> int \<Rightarrow> csv_item list \<Rightarrow> fatal + int" where
  "countLinesAvailable_loop i fitting [] = (if i < fitting then Inr i else Inr fitting)"
| "countLinesAvailable_loop i fitting (Bad # rest) =
     (if i < fitting then Inl ErrCsv else Inr fitting)"
| "countLinesAvailable_loop i fitting (Rec r # rest) =
     (if i < fitting then countLinesAvailable_loop (i + 1) fitting rest else Inr fitting)"

text \<open>\<^verbatim>\<open>Pager.countLinesAvailable\<close> (lines 416--434); the deferred \<^verbatim>\<open>Seek\<close> puts the
  file's offset back, so the pager is unchanged.\<close>

definition countLinesAvailable :: "env \<Rightarrow> Pager \<Rightarrow> fatal + int" where
  "countLinesAvailable e p =
     (case getNewCSVReader e (fileBytes p) (fileOffset p) of
        Inl err \<Rightarrow> Inl err
      | Inr reader \<Rightarrow> countLinesAvailable_loop 0 (countLinesFitting e) reader)"

text \<open>The second loop of the first revision's \<^verbatim>\<open>seekForwardN\<close> (lines 441--443):
  \<^verbatim>\<open>for p.countLinesAvailable() < lines { p.seekBackLine() }\<close>. Nothing in the loop
  bounds it, so not returning is the value \<open>None\<close>.\<close>

partial_function (option) seekForwardN_refill :: "env \<Rightarrow> int \<Rightarrow> Pager \<Rightarrow> (fatal + Pager) option" where
  "seekForwardN_refill e lines p =
     (case countLinesAvailable e p of
        Inl err \<Rightarrow> Some (Inl err)
      | Inr avail \<Rightarrow>
          if avail < lines then
            (case seekBackLine p of
               Inl err \<Rightarrow> Some (Inl err)
             | Inr (res, p') \<Rightarrow> seekForwardN_refill e lines p')
          else Some (Inr p))"

declare seekForwardN_refill.simps [code]

text \<open>\<^verbatim>\<open>Pager.seekForwardN\<close>, first revision (lines 436--444).\<close>

definition seekForwardN :: "env \<Rightarrow> int \<Rightarrow> Pager \<Rightarrow> (fatal + Pager) option" where
  "seekForwardN e n p =
     (case countLinesAvailable e p of
        Inl err \<Rightarrow> Some (Inl err)
      | Inr lines \<Rightarrow>
          (case forRange 0 n (\<lambda>q. dropResult (seekForwardLine q)) p of
             Inl err \<Rightarrow> Some (Inl err)
           | Inr p' \<Rightarrow> seekForwardN_refill e lines p'))"


text \<open>\<^verbatim>\<open>Pager.seekStart\<close> and \<^verbatim>\<open>Pager.seekEnd\<close>, first revision (lines 452--463).\<close>

definition seekStart :: "Pager \<Rightarrow> Pager" where
  "seekStart p = p\<lparr>fileOffset := 0\<rparr>"

definition seekEnd :: "env \<Rightarrow> Pager \<Rightarrow> fatal + Pager" where
  "seekEnd e p =
     forRange 0 (countLinesFitting e) (\<lambda>q. dropResult (seekBackLine q))
       (p\<lparr>fileOffset := int (length (fileBytes p))\<rparr>)"



text \<open>\<^verbatim>\<open>Pager.seekStart\<close> and \<^verbatim>\<open>Pager.seekEnd\<close>, second revision (lines 929--941);
  \<^verbatim>\<open>seekEnd\<close> moves the file but not \<^verbatim>\<open>currentOffset\<close>.\<close>

definition seekStart' :: "Pager' \<Rightarrow> Pager'" where
  "seekStart' p = p\<lparr>fileOffset' := 0, currentOffset' := 0\<rparr>"

definition seekEnd' :: "env \<Rightarrow> Pager' \<Rightarrow> fatal + Pager'" where
  "seekEnd' e p =
     forRange 0 (countLinesFitting e) (\<lambda>q. dropResult (seekBackLine' q))
       (p\<lparr>fileOffset' := int (length (fileBytes' p))\<rparr>)"

section \<open>Windowed record reader and table renderer\<close>

subsection \<open>Go primitives\<close>

text \<open>\<^verbatim>\<open>xs[i]\<close> and \<^verbatim>\<open>xs[lo:hi]\<close>. Go checks the upper bound of a slice expression against
  the capacity; every slice expression modelled here has \<open>hi \<le> len(xs)\<close>, so the
  length is checked.\<close>

definition goIndex :: "'a list \<Rightarrow> int \<Rightarrow> fatal + 'a" where
  "goIndex xs i =
     (if 0 \<le> i \<and> i < int (length xs) then Inr (xs ! nat i) else Inl ErrIndexOutOfRange)"

definition goSlice :: "'a list \<Rightarrow> int \<Rightarrow> int \<Rightarrow> fatal + 'a list" where
  "goSlice xs lo hi =
     (if 0 \<le> lo \<and> lo \<le> hi \<and> hi \<le> int (length xs)
      then Inr (take (nat (hi - lo)) (drop (nat lo) xs))
      else Inl ErrSliceBounds)"

text \<open>\<^verbatim>\<open>sum\<close> (lines 499--505).\<close>

definition sumInts :: "int list \<Rightarrow> int" where
  "sumInts ns = foldl (\<lambda>res n. res + n) 0 ns"

text \<open>The box-drawing code points the renderer writes, and the space.\<close>

definition glyphHorizontal :: rune where "glyphHorizontal = 0x2501"
definition glyphVertical :: rune where "glyphVertical = 0x2503"
definition glyphTopLeft :: rune where "glyphTopLeft = 0x250F"
definition glyphTopMiddle :: rune where "glyphTopMiddle = 0x2533"
definition glyphTopRight :: rune where "glyphTopRight = 0x2513"
definition glyphBottomLeft :: rune where "glyphBottomLeft = 0x2517"
definition glyphBottomMiddle :: rune where "glyphBottomMiddle = 0x253B"
definition glyphBottomRight :: rune where "glyphBottomRight = 0x251B"
definition glyphMidLeft :: rune where "glyphMidLeft = 0x2523"
definition glyphMidMiddle :: rune where "glyphMidMiddle = 0x254B"
definition glyphMidRight :: rune where "glyphMidRight = 0x252B"
definition glyphSpace :: rune where "glyphSpace = 0x20"

text \<open>\<^verbatim>\<open>len(s)\<close> of a string, in bytes of its UTF-8 encoding.\<close>

definition utf8Len :: "gostring \<Rightarrow> int" where
  "utf8Len s =
     sumInts (map (\<lambda>r. if r < 0x80 then 1 else if r < 0x800 then 2
                         else if r < 0x10000 then 3 else 4) s)"

text \<open>\<^verbatim>\<open>termSize\<close> (lines 481--486 and 955--960).\<close>

definition termSize :: "env \<Rightarrow> int \<times> int" where
  "termSize e = (termWidth e, termHeight e)"

text \<open>\<^verbatim>\<open>padString\<close> (lines 349--356 and 846--853); \<^verbatim>\<open>strings.Repeat\<close> panics on a
  negative count.\<close>

definition padString :: "gostring \<Rightarrow> int \<Rightarrow> fatal + gostring" where
  "padString input len =
     (let n = int (length input) in
      if n = len then Inr input
      else if len - n < 0 then Inl ErrNegativeRepeat
      else Inr (replicate (nat (len - n)) glyphSpace @ input))"

text \<open>The height and width truncation that ends \<^verbatim>\<open>getPrintableLines\<close> (lines 228--239
  and 760--770), the same in both revisions: the last line becomes the footer, the
  window is cut to the terminal's height, and each line is cut to the code points from
  \<open>horizontalShift\<close> up to \<open>horizontalShift + width\<close>.\<close>

definition clipLine :: "int \<Rightarrow> int \<Rightarrow> gostring \<Rightarrow> fatal + gostring" where
  "clipLine shift width pl = goSlice pl shift (min (int (length pl)) (shift + width))"

fun clipLines :: "int \<Rightarrow> int \<Rightarrow> gostring list \<Rightarrow> fatal + gostring list" where
  "clipLines shift width [] = Inr []"
| "clipLines shift width (pl # rest) =
     (case clipLine shift width pl of
        Inl err \<Rightarrow> Inl err
      | Inr truncated \<Rightarrow>
          (case clipLines shift width rest of
             Inl err \<Rightarrow> Inl err
           | Inr done \<Rightarrow> Inr (truncated # done)))"

definition closeAndClip :: "int \<Rightarrow> int \<Rightarrow> int \<Rightarrow> gostring \<Rightarrow> gostring list \<Rightarrow> fatal + gostring list" where
  "closeAndClip shift width height footer window =
     (case goIndex window (int (length window) - 1) of
        Inl err \<Rightarrow> Inl err
      | Inr last_line \<Rightarrow>
          (let window1 = window[length window - 1 := footer] in
           case goSlice window1 0 (min height (int (length window1))) of
             Inl err \<Rightarrow> Inl err
           | Inr window2 \<Rightarrow> clipLines shift width window2))"

text \<open>The loop over the records in \<^verbatim>\<open>getPrintableLines\<close> (lines 220--227 and 752--759),
  the same in both revisions but for \<^verbatim>\<open>getDataFields\<close>.\<close>

fun getPrintableLines_rows ::
  "(csv_record \<Rightarrow> fatal + gostring) \<Rightarrow> gostring \<Rightarrow> int \<Rightarrow> csv_record list \<Rightarrow>
   gostring list \<Rightarrow> fatal + gostring list" where
  "getPrintableLines_rows dataFieldsOf dataFooter height [] window = Inr window"
| "getPrintableLines_rows dataFieldsOf dataFooter height (record # rest) window =
     (if height \<le> int (length window) then Inr window
      else case dataFieldsOf record of
             Inl err \<Rightarrow> Inl err
           | Inr dataFields \<Rightarrow>
               getPrintableLines_rows dataFieldsOf dataFooter height rest
                 (window @ [dataFields, dataFooter]))"

subsection \<open>First revision: one width per column\<close>

text \<open>The two inner loops of \<^verbatim>\<open>readLines\<close> (lines 201--207): grow \<^verbatim>\<open>maxWidth\<close> with zeros
  to the record's length, then raise each column to the field's code point count.\<close>

definition growTo :: "int list \<Rightarrow> nat \<Rightarrow> int list" where
  "growTo mw n = mw @ replicate (n - length mw) 0"

definition widen :: "int list \<Rightarrow> csv_record \<Rightarrow> int list" where
  "widen mw record =
     foldl (\<lambda>m (f, field). m[f := max (m ! f) (int (length field))])
       (growTo mw (length record)) (zip [0..<length record] record)"

text \<open>The outer loop of \<^verbatim>\<open>readLines\<close> (lines 193--209).\<close>

fun readLines_loop ::
  "int \<Rightarrow> int \<Rightarrow> csv_item list \<Rightarrow> int list \<Rightarrow> csv_record list \<Rightarrow>
   fatal + (int list \<times> csv_record list)" where
  "readLines_loop i fitting [] mw res = Inr (mw, res)"
| "readLines_loop i fitting (Bad # rest) mw res =
     (if i < fitting then Inl ErrCsv else Inr (mw, res))"
| "readLines_loop i fitting (Rec record # rest) mw res =
     (if i < fitting
      then readLines_loop (i + 1) fitting rest (widen mw record) (res @ [record])
      else Inr (mw, res))"

text \<open>\<^verbatim>\<open>Pager.readLines\<close> (lines 184--211); the deferred \<^verbatim>\<open>Seek\<close> puts the file's offset
  back.\<close>

definition readLines :: "env \<Rightarrow> Pager \<Rightarrow> fatal + (csv_record list \<times> Pager)" where
  "readLines e p =
     (case getNewCSVReader e (fileBytes p) (fileOffset p) of
        Inl err \<Rightarrow> Inl err
      | Inr reader \<Rightarrow>
          (case readLines_loop 0 (countLinesFitting e) reader (maxWidth p) [] of
             Inl err \<Rightarrow> Inl err
           | Inr (mw, res) \<Rightarrow> Inr (res, p\<lparr>maxWidth := mw\<rparr>)))"

text \<open>\<^verbatim>\<open>countMaxJoinedLength\<close> (lines 300--306).\<close>

definition countMaxJoinedLength :: "Pager \<Rightarrow> int" where
  "countMaxJoinedLength p = foldl (\<lambda>res w. res + (w + 1)) 0 (maxWidth p) + 1"

text \<open>The loop of \<^verbatim>\<open>getTableLine\<close> (lines 260--274). The third case is reached only for
  \<open>0 < i < length - 1\<close>, where \<open>j + 1 \<le> len(maxWidth)\<close>, so \<^verbatim>\<open>maxWidth[0:j+1]\<close> is the first
  \<open>j + 1\<close> widths.\<close>

function getTableLine_loop ::
  "int list \<Rightarrow> rune \<Rightarrow> rune \<Rightarrow> rune \<Rightarrow> int \<Rightarrow> int \<Rightarrow> int \<Rightarrow> gostring" where
  "getTableLine_loop mw start middle end' len i j =
     (if i < len then
        (if i = 0 then start # getTableLine_loop mw start middle end' len (i + 1) j
         else if i = len - 1 then end' # getTableLine_loop mw start middle end' len (i + 1) j
         else if sumInts (take (nat (j + 1)) mw) + (j + 1) = i
           then middle # getTableLine_loop mw start middle end' len (i + 1) (j + 1)
         else glyphHorizontal # getTableLine_loop mw start middle end' len (i + 1) j)
      else [])"
  by pat_completeness auto
termination
  by (relation "measure (\<lambda>(mw, start, middle, end', len, i, j). nat (len - i))") auto

declare getTableLine_loop.simps [simp del]

text \<open>\<^verbatim>\<open>getTableLine\<close> and its three callers (lines 256--288).\<close>

definition getTableLine :: "Pager \<Rightarrow> rune \<Rightarrow> rune \<Rightarrow> rune \<Rightarrow> gostring" where
  "getTableLine p start middle end' =
     getTableLine_loop (maxWidth p) start middle end' (countMaxJoinedLength p) 0 0"

definition getTableHeaderLine :: "Pager \<Rightarrow> gostring" where
  "getTableHeaderLine p = getTableLine p glyphTopLeft glyphTopMiddle glyphTopRight"

definition getTableFooterLine :: "Pager \<Rightarrow> gostring" where
  "getTableFooterLine p = getTableLine p glyphBottomLeft glyphBottomMiddle glyphBottomRight"

definition getDataLine :: "Pager \<Rightarrow> gostring" where
  "getDataLine p = getTableLine p glyphMidLeft glyphMidMiddle glyphMidRight"

text \<open>\<^verbatim>\<open>getDataFields\<close> (lines 290--298).\<close>

fun getDataFields_loop :: "int list \<Rightarrow> int \<Rightarrow> csv_record \<Rightarrow> fatal + gostring" where
  "getDataFields_loop mw i [] = Inr []"
| "getDataFields_loop mw i (field # rest) =
     (case goIndex mw i of
        Inl err \<Rightarrow> Inl err
      | Inr w \<Rightarrow>
          (case padString field w of
             Inl err \<Rightarrow> Inl err
           | Inr padded \<Rightarrow>
               (case getDataFields_loop mw (i + 1) rest of
                  Inl err \<Rightarrow> Inl err
                | Inr written \<Rightarrow> Inr (padded @ [glyphVertical] @ written))))"

definition getDataFields :: "Pager \<Rightarrow> csv_record \<Rightarrow> fatal + gostring" where
  "getDataFields p line =
     (case getDataFields_loop (maxWidth p) 0 line of
        Inl err \<Rightarrow> Inl err
      | Inr written \<Rightarrow> Inr (glyphVertical # written))"

text \<open>\<^verbatim>\<open>Pager.getPrintableLines\<close> (lines 213--241).\<close>

definition getPrintableLines :: "env \<Rightarrow> Pager \<Rightarrow> csv_record list \<Rightarrow> fatal + gostring list" where
  "getPrintableLines e p lines =
     (case termSize e of (width, height) \<Rightarrow>
        (case getPrintableLines_rows (getDataFields p) (getDataLine p) height lines
                [getTableHeaderLine p] of
           Inl err \<Rightarrow> Inl err
         | Inr window \<Rightarrow>
             closeAndClip (horizontalShift p) width height (getTableFooterLine p) window))"

text \<open>\<^verbatim>\<open>Pager.renderCSVWindow\<close> (lines 243--254). The result holds what reaches the
  terminal: whether the screen is cleared, and the lines printed.\<close>

definition renderCSVWindow :: "env \<Rightarrow> Pager \<Rightarrow> fatal + ((bool \<times> gostring list) \<times> Pager)" where
  "renderCSVWindow e p =
     (case readLines e p of
        Inl err \<Rightarrow> Inl err
      | Inr (lines, p1) \<Rightarrow>
          (case getPrintableLines e p1 lines of
             Inl err \<Rightarrow> Inl err
           | Inr printableLines \<Rightarrow>
               (let clear =
                  (case prevPrintableLines p1 of
                     None \<Rightarrow> True
                   | Some prev \<Rightarrow>
                       length printableLines \<noteq> length prev \<or>
                       (0 < length printableLines \<and>
                        utf8Len (hd printableLines) \<noteq> utf8Len (hd prev)))
                in Inr ((clear, printableLines),
                        p1\<lparr>prevPrintableLines := Some printableLines\<rparr>))))"

text \<open>\<^verbatim>\<open>currentFieldIndex\<close> (lines 332--347).\<close>

fun currentFieldIndex_loop :: "int \<Rightarrow> int \<Rightarrow> int \<Rightarrow> int \<Rightarrow> int list \<Rightarrow> int" where
  "currentFieldIndex_loop shift n i cum [] = (if shift = cum then n - 1 else 0)"
| "currentFieldIndex_loop shift n i cum (w # ws) =
     (if cum \<le> shift - i \<and> shift - i < cum + w then i
      else currentFieldIndex_loop shift n (i + 1) (cum + w) ws)"

definition currentFieldIndex :: "Pager \<Rightarrow> int" where
  "currentFieldIndex p =
     currentFieldIndex_loop (horizontalShift p) (int (length (maxWidth p))) 0 0 (maxWidth p)"

text \<open>\<^verbatim>\<open>moveToLeft\<close> and \<^verbatim>\<open>moveToRight\<close> (lines 313--330).\<close>

definition moveToLeft :: "Pager \<Rightarrow> fatal + Pager" where
  "moveToLeft p =
     (let i = currentFieldIndex p in
      if i = 0 then Inr (p\<lparr>horizontalShift := 0\<rparr>)
      else case goIndex (maxWidth p) (i - 1) of
             Inl err \<Rightarrow> Inl err
           | Inr w \<Rightarrow> Inr (p\<lparr>horizontalShift := max 0 (horizontalShift p - w - 1)\<rparr>))"

definition moveToRight :: "env \<Rightarrow> Pager \<Rightarrow> fatal + Pager" where
  "moveToRight e p =
     (case termSize e of (width, height) \<Rightarrow>
        (let len = countMaxJoinedLength p in
         if len - horizontalShift p \<le> width then Inr p
         else case goIndex (maxWidth p) (currentFieldIndex p) of
                Inl err \<Rightarrow> Inl err
              | Inr w \<Rightarrow> Inr (p\<lparr>horizontalShift := horizontalShift p + w + 1\<rparr>)))"

subsection \<open>Second revision: one width for all columns\<close>

text \<open>The loops of \<^verbatim>\<open>readLines\<close> (lines 725--739).\<close>

definition widen' :: "int \<Rightarrow> csv_record \<Rightarrow> int" where
  "widen' mw record = foldl (\<lambda>m field. max m (int (length field))) mw record"

fun readLines_loop' ::
  "int \<Rightarrow> int \<Rightarrow> csv_item list \<Rightarrow> int \<Rightarrow> int \<Rightarrow> csv_record list \<Rightarrow>
   fatal + (int \<times> int \<times> csv_record list)" where
  "readLines_loop' i fitting [] mf mw res = Inr (mf, mw, res)"
| "readLines_loop' i fitting (Bad # rest) mf mw res =
     (if i < fitting then Inl ErrCsv else Inr (mf, mw, res))"
| "readLines_loop' i fitting (Rec record # rest) mf mw res =
     (if i < fitting
      then readLines_loop' (i + 1) fitting rest (max mf (int (length record)))
             (widen' mw record) (res @ [record])
      else Inr (mf, mw, res))"

text \<open>\<^verbatim>\<open>Pager.readLines\<close> (lines 719--743): \<^verbatim>\<open>currentOffset\<close> takes the file's offset, and
  the file is moved back to it after the read.\<close>

definition readLines' :: "env \<Rightarrow> Pager' \<Rightarrow> fatal + (csv_record list \<times> Pager')" where
  "readLines' e p =
     (case getNewCSVReader e (fileBytes' p) (fileOffset' p) of
        Inl err \<Rightarrow> Inl err
      | Inr reader \<Rightarrow>
          (case readLines_loop' 0 (countLinesFitting e) reader (maxFields' p) (maxWidth' p) [] of
             Inl err \<Rightarrow> Inl err
           | Inr (mf, mw, res) \<Rightarrow>
               Inr (res, p\<lparr>currentOffset' := fileOffset' p, maxFields' := mf, maxWidth' := mw\<rparr>)))"

text \<open>\<^verbatim>\<open>countMaxJoinedLength\<close> (lines 824--826).\<close>

definition countMaxJoinedLength' :: "Pager' \<Rightarrow> int" where
  "countMaxJoinedLength' p = (maxWidth' p + 1) * maxFields' p + 1"

text \<open>The loop of \<^verbatim>\<open>getTableLine\<close> (lines 785--798). Go's \<^verbatim>\<open>%\<close> truncates; it is reached
  only for \<open>0 < i < length - 1\<close>, where \<open>maxWidth + 1\<close> is not 0.\<close>

function getTableLine_loop' ::
  "int \<Rightarrow> rune \<Rightarrow> rune \<Rightarrow> rune \<Rightarrow> int \<Rightarrow> int \<Rightarrow> gostring" where
  "getTableLine_loop' mw start middle end' len i =
     (if i < len then
        (if i = 0 then start # getTableLine_loop' mw start middle end' len (i + 1)
         else if i = len - 1 then end' # getTableLine_loop' mw start middle end' len (i + 1)
         else if i smod (mw + 1) = 0
           then middle # getTableLine_loop' mw start middle end' len (i + 1)
         else glyphHorizontal # getTableLine_loop' mw start middle end' len (i + 1))
      else [])"
  by pat_completeness auto
termination
  by (relation "measure (\<lambda>(mw, start, middle, end', len, i). nat (len - i))") auto

declare getTableLine_loop'.simps [simp del]

text \<open>\<^verbatim>\<open>getTableLine\<close> and its three callers (lines 782--812); the parameter \<^verbatim>\<open>nfields\<close>
  is not used.\<close>

definition getTableLine' :: "Pager' \<Rightarrow> int \<Rightarrow> rune \<Rightarrow> rune \<Rightarrow> rune \<Rightarrow> gostring" where
  "getTableLine' p nfields start middle end' =
     getTableLine_loop' (maxWidth' p) start middle end' (countMaxJoinedLength' p) 0"

definition getTableHeaderLine' :: "Pager' \<Rightarrow> gostring" where
  "getTableHeaderLine' p =
     getTableLine' p (maxFields' p) glyphTopLeft glyphTopMiddle glyphTopRight"

definition getTableFooterLine' :: "Pager' \<Rightarrow> gostring" where
  "getTableFooterLine' p =
     getTableLine' p (maxFields' p) glyphBottomLeft glyphBottomMiddle glyphBottomRight"

definition getDataLine' :: "Pager' \<Rightarrow> gostring" where
  "getDataLine' p = getTableLine' p (maxFields' p) glyphMidLeft glyphMidMiddle glyphMidRight"

text \<open>\<^verbatim>\<open>getDataFields\<close> (lines 814--822).\<close>

fun getDataFields_loop' :: "int \<Rightarrow> csv_record \<Rightarrow> fatal + gostring" where
  "getDataFields_loop' mw [] = Inr []"
| "getDataFields_loop' mw (field # rest) =
     (case padString field mw of
        Inl err \<Rightarrow> Inl err
      | Inr padded \<Rightarrow>
          (case getDataFields_loop' mw rest of
             Inl err \<Rightarrow> Inl err
           | Inr written \<Rightarrow> Inr (padded @ [glyphVertical] @ written)))"

definition getDataFields' :: "Pager' \<Rightarrow> csv_record \<Rightarrow> fatal + gostring" where
  "getDataFields' p line =
     (case getDataFields_loop' (maxWidth' p) line of
        Inl err \<Rightarrow> Inl err
      | Inr written \<Rightarrow> Inr (glyphVertical # written))"

text \<open>\<^verbatim>\<open>Pager.getPrintableLines\<close> (lines 745--773).\<close>

definition getPrintableLines' :: "env \<Rightarrow> Pager' \<Rightarrow> csv_record list \<Rightarrow> fatal + gostring list" where
  "getPrintableLines' e p lines =
     (case termSize e of (width, height) \<Rightarrow>
        (case getPrintableLines_rows (getDataFields' p) (getDataLine' p) height lines
                [getTableHeaderLine' p] of
           Inl err \<Rightarrow> Inl err
         | Inr window \<Rightarrow>
             closeAndClip (horizontalShift' p) width height (getTableFooterLine' p) window))"

text \<open>\<^verbatim>\<open>Pager.renderCSVWindow\<close> (lines 775--780): the screen is always cleared.\<close>

definition renderCSVWindow' :: "env \<Rightarrow> Pager' \<Rightarrow> fatal + ((bool \<times> gostring list) \<times> Pager')" where
  "renderCSVWindow' e p =
     (case readLines' e p of
        Inl err \<Rightarrow> Inl err
      | Inr (lines, p1) \<Rightarrow>
          (case getPrintableLines' e p1 lines of
             Inl err \<Rightarrow> Inl err
           | Inr printableLines \<Rightarrow> Inr ((True, printableLines), p1)))"

text \<open>\<^verbatim>\<open>moveToLeft\<close> and \<^verbatim>\<open>moveToRight\<close> (lines 833--844).\<close>

definition moveToLeft' :: "Pager' \<Rightarrow> Pager'" where
  "moveToLeft' p = p\<lparr>horizontalShift' := max (horizontalShift' p - maxWidth' p - 1) 0\<rparr>"

definition moveToRight' :: "env \<Rightarrow> Pager' \<Rightarrow> Pager'" where
  "moveToRight' e p =
     (case termSize e of (width, height) \<Rightarrow>
        (let len = countMaxJoinedLength' p in
         if len - horizontalShift' p \<le> width then p
         else p\<lparr>horizontalShift' := horizontalShift' p + maxWidth' p + 1\<rparr>))"

subsection \<open>Start of the program\<close>

text \<open>\<^verbatim>\<open>main\<close> up to the first render (lines 46--69 and 580--604). The flags are parsed
  already: \<open>csvFile\<close> is the \<^verbatim>\<open>-file\<close> flag and \<open>comma e\<close> the \<^verbatim>\<open>-comma\<close> flag. \<open>fs\<close> maps
  a path to the content of the file that \<^verbatim>\<open>os.Open\<close> finds there. The program ends with
  the usage message and exit status 1, or panics, or goes on to read the keyboard with
  the session and the first screen.\<close>

datatype ('s, 'o) startup = UsageExit | Panic fatal | Running 's 'o

definition main ::
  "(string \<Rightarrow> char list option) \<Rightarrow> string \<Rightarrow> env \<Rightarrow> (Pager, bool \<times> gostring list) startup" where
  "main fs csvFile e =
     (if csvFile = [] then UsageExit
      else case fs csvFile of
             None \<Rightarrow> Panic ErrOpen
           | Some bs \<Rightarrow>
               (case renderCSVWindow e
                       \<lparr>horizontalShift = 0, maxWidth = [], fileBytes = bs, fileOffset = 0,
                        prevPrintableLines = None\<rparr> of
                  Inl err \<Rightarrow> Panic err
                | Inr (screen, p) \<Rightarrow> Running p screen))"

definition main' ::
  "(string \<Rightarrow> char list option) \<Rightarrow> string \<Rightarrow> env \<Rightarrow> (Pager', bool \<times> gostring list) startup" where
  "main' fs csvFile e =
     (if csvFile = [] then UsageExit
      else case fs csvFile of
             None \<Rightarrow> Panic ErrOpen
           | Some bs \<Rightarrow>
               (case renderCSVWindow' e
                       \<lparr>currentOffset' = 0, horizontalShift' = 0, maxFields' = 0, maxWidth' = 0,
                        fileBytes' = bs, fileOffset' = 0\<rparr> of
                  Inl err \<Rightarrow> Panic err
                | Inr (screen, p) \<Rightarrow> Running p screen))"

subsection \<open>The specification's navigator and list views of the scans\<close>

text \<open>\<open>n\<close> single steps in sequence, each starting from the state the previous one
  left: the specification's reading of \<^verbatim>\<open>lineForward(n)\<close> and \<^verbatim>\<open>lineBackward(n)\<close>.\<close>

primrec iterate :: "nat \<Rightarrow> ('s \<Rightarrow> fatal + 's) \<Rightarrow> 's \<Rightarrow> fatal + 's" where
  "iterate 0 step s = Inr s"
| "iterate (Suc n) step s =
     (case step s of Inl e \<Rightarrow> Inl e | Inr s' \<Rightarrow> iterate n step s')"

text \<open>Two newline bytes side by side, that is an empty line after the first line.\<close>

fun adjacentNL :: "char list \<Rightarrow> bool" where
  "adjacentNL (b # c # rest) = ((b = NL \<and> c = NL) \<or> adjacentNL (c # rest))"
| "adjacentNL bs = False"

text \<open>A file has an empty logical line when it starts with a newline or holds two
  newlines side by side.\<close>

definition hasEmptyLine :: "char list \<Rightarrow> bool" where
  "hasEmptyLine bs = ((case bs of [] \<Rightarrow> False | b # rest \<Rightarrow> b = NL) \<or> adjacentNL bs)"

text \<open>An offset is a line start when it is 0 or follows a newline.\<close>

definition lineStart :: "char list \<Rightarrow> int \<Rightarrow> bool" where
  "lineStart bs off =
     (off = 0 \<or> (0 < off \<and> off \<le> int (length bs) \<and> bs ! nat (off - 1) = NL))"

text \<open>An offset rests on text when it is inside the file, follows a newline and holds
  a byte that is not a newline: the start of a line that is not empty.\<close>

definition onText :: "char list \<Rightarrow> int \<Rightarrow> bool" where
  "onText bs off =
     (0 < off \<and> off < int (length bs) \<and> bs ! nat (off - 1) = NL \<and> bs ! nat off \<noteq> NL)"

text \<open>An offset is the start of an empty logical line when it is a line start whose
  own byte is a newline.\<close>

definition atEmptyLine :: "char list \<Rightarrow> int \<Rightarrow> bool" where
  "atEmptyLine bs off =
     (lineStart bs off \<and> off < int (length bs) \<and> bs ! nat off = NL)"

text \<open>The specification's \<^verbatim>\<open>seekNextLineStart\<close>, on the bytes from the cursor on: look
  for a newline followed by at least one more byte and return the offset just past
  it; at end of file return the end offset.\<close>

fun nextLineStart :: "char list \<Rightarrow> nat" where
  "nextLineStart [] = 0"
| "nextLineStart [b] = 1"
| "nextLineStart (b # c # rest) = (if b = NL then 1 else Suc (nextLineStart (c # rest)))"

definition seekNextLineStart_spec :: "char list \<Rightarrow> int \<Rightarrow> int" where
  "seekNextLineStart_spec bs off = off + int (nextLineStart (drop (nat off) bs))"

text \<open>The specification's \<^verbatim>\<open>seekPreviousLineStart\<close>, on the bytes behind the cursor,
  nearest first: skip the newline just behind the cursor, scan back to the next
  newline and return the offset after it, that is the number of bytes up to and
  including that newline; 0 when there is none.\<close>

definition seekPreviousLineStart_spec :: "char list \<Rightarrow> int \<Rightarrow> int" where
  "seekPreviousLineStart_spec bs off =
     int (length (dropWhile (\<lambda>b. b \<noteq> NL) (tl (rev (take (nat off) bs)))))"

text \<open>What one forward seek passes, on the bytes from the cursor on: the text up to the
  next newline and then the whole run of newlines, counted as one line boundary.\<close>

definition passLineBoundary :: "char list \<Rightarrow> nat" where
  "passLineBoundary xs =
     length (takeWhile (\<lambda>b. b \<noteq> NL) xs) +
     length (takeWhile (\<lambda>b. b = NL) (dropWhile (\<lambda>b. b \<noteq> NL) xs))"

text \<open>Where one backward seek ends, on the bytes behind the cursor, nearest first: behind
  the text of the cursor's own line, the whole run of newlines and the text before that
  run, the bytes that remain are counted; they start with a newline. The byte at offset
  0 is not looked at, so one remaining byte gives 0 as none does.\<close>

definition beforeLineBoundary :: "char list \<Rightarrow> nat" where
  "beforeLineBoundary ys =
     (let rest = dropWhile (\<lambda>b. b \<noteq> NL)
                   (dropWhile (\<lambda>b. b = NL) (dropWhile (\<lambda>b. b \<noteq> NL) ys))
      in if length rest \<le> 1 then 0 else length rest)"

text \<open>The forward scan as a function of the bytes from \<open>res\<close> on: the number of bytes
  it passes.\<close>

fun forwardPassed :: "bool \<Rightarrow> char list \<Rightarrow> nat" where
  "forwardPassed enteredNL [] = 0"
| "forwardPassed enteredNL (b # bs) =
     (if b = NL \<and> \<not> enteredNL then Suc (forwardPassed True bs)
      else if b \<noteq> NL \<and> enteredNL then 0
      else Suc (forwardPassed enteredNL bs))"

text \<open>The backward scan as a function of the bytes at \<open>res\<close>, \<open>res - 1\<close>, ..., 0: the
  offset it returns. The byte at offset 0 is never read.\<close>

fun backwardResult :: "bool \<Rightarrow> bool \<Rightarrow> char list \<Rightarrow> nat" where
  "backwardResult enteredNL enteredText [] = 0"
| "backwardResult enteredNL enteredText [b] = 0"
| "backwardResult enteredNL enteredText (b # x # xs) =
     (if b = NL \<and> \<not> enteredNL then backwardResult True enteredText (x # xs)
      else if b \<noteq> NL \<and> enteredNL then backwardResult enteredNL True (x # xs)
      else if b = NL \<and> enteredText then Suc (length (x # xs))
      else backwardResult enteredNL enteredText (x # xs))"

text \<open>An instance of the environment's parser, for files without quote characters
  and carriage returns: there \<^verbatim>\<open>encoding/csv\<close> yields one record for every line that
  is not empty, split at the delimiter, and the code points of an ASCII field are its
  bytes.\<close>

fun splitOn :: "'a \<Rightarrow> 'a list \<Rightarrow> 'a list list" where
  "splitOn d [] = [[]]"
| "splitOn d (x # xs) =
     (if x = d then [] # splitOn d xs
      else (case splitOn d xs of [] \<Rightarrow> [[x]] | l # ls \<Rightarrow> (x # l) # ls))"

definition plainCsv :: "char \<Rightarrow> char list \<Rightarrow> int \<Rightarrow> csv_item list" where
  "plainCsv c bs off =
     map (\<lambda>l. Rec (map (map of_char) (splitOn c l)))
       (filter (\<lambda>l. l \<noteq> []) (splitOn NL (drop (nat off) bs)))"

subsection \<open>The specification's metrics of a window\<close>

text \<open>The window of a read: the records among the first items that the parser yields, as
  many items as lines fit.\<close>

fun recordsOf :: "csv_item list \<Rightarrow> csv_record list" where
  "recordsOf [] = []"
| "recordsOf (Rec r # items) = r # recordsOf items"
| "recordsOf (Bad # items) = recordsOf items"

definition windowOf :: "env \<Rightarrow> csv_item list \<Rightarrow> csv_record list" where
  "windowOf e reader = recordsOf (take (nat (countLinesFitting e)) reader)"

text \<open>The column-wise maximum of two lists of widths; where one list is shorter the other
  one's width stands.\<close>

fun zipMax :: "int list \<Rightarrow> int list \<Rightarrow> int list" where
  "zipMax [] ys = ys"
| "zipMax xs [] = xs"
| "zipMax (x # xs) (y # ys) = max x y # zipMax xs ys"

text \<open>The widths of a record's fields in code points, and the column metrics of a window
  taken by itself: the column-wise maximum of the widths of its records (first revision),
  its largest field count and its largest field width (second revision).\<close>

definition recordWidths :: "csv_record \<Rightarrow> int list" where
  "recordWidths record = map (\<lambda>field. int (length field)) record"

definition windowWidths :: "csv_record list \<Rightarrow> int list" where
  "windowWidths recs = foldr (\<lambda>record ws. zipMax (recordWidths record) ws) recs []"

definition windowFields :: "csv_record list \<Rightarrow> int" where
  "windowFields recs = foldr (\<lambda>record m. max (int (length record)) m) recs 0"

definition windowWidth :: "csv_record list \<Rightarrow> int" where
  "windowWidth recs = foldr (\<lambda>field m. max (int (length field)) m) (concat recs) 0"

subsection \<open>Example sessions\<close>

text \<open>The session state as created at startup, with the cursor moved to \<open>off\<close>.\<close>

definition pagerAt :: "char list \<Rightarrow> int \<Rightarrow> Pager" where
  "pagerAt bs off =
     \<lparr>horizontalShift = 0, maxWidth = [], fileBytes = bs, fileOffset = off,
      prevPrintableLines = None\<rparr>"

definition pagerAt' :: "char list \<Rightarrow> int \<Rightarrow> Pager'" where
  "pagerAt' bs off =
     \<lparr>currentOffset' = off, horizontalShift' = 0, maxFields' = 0, maxWidth' = 0,
      fileBytes' = bs, fileOffset' = off\<rparr>"

text \<open>The specification's three-line file, a file with an empty line in the middle
  and a file that starts with empty lines.\<close>

definition threeLines :: "char list" where
  "threeLines = ''a,b'' @ [NL] @ ''ccc,d'' @ [NL] @ ''e,ffff'' @ [NL]"

definition blankLineFile :: "char list" where
  "blankLineFile = ''a'' @ [NL, NL] @ ''b'' @ [NL]"

definition leadingBlankFile :: "char list" where
  "leadingBlankFile = [NL, NL] @ ''a''"

text \<open>A file with an empty line after its second line.\<close>

definition innerBlankFile :: "char list" where
  "innerBlankFile = ''a'' @ [NL] @ ''b'' @ [NL, NL] @ ''c'' @ [NL]"


definition plainEnv :: "int \<Rightarrow> int \<Rightarrow> env" where
  "plainEnv w h = \<lparr>comma = '','', termWidth = w, termHeight = h, csvRead = plainCsv\<rparr>"


text \<open>A file whose second record has fewer fields than its first, the two screens of the
  session that pans it on a terminal three columns wide, and the states of that
  session.\<close>

definition raggedFile :: "char list" where
  "raggedFile = ''a,b,c'' @ [NL] @ ''d'' @ [NL]"

definition raggedScreen :: "gostring list" where
  "raggedScreen =
     [[glyphTopLeft, glyphHorizontal, glyphTopMiddle],
      [glyphVertical, 97, glyphVertical],
      [glyphMidLeft, glyphHorizontal, glyphMidMiddle],
      [glyphVertical, 100, glyphVertical],
      [glyphBottomLeft, glyphHorizontal, glyphBottomMiddle]]"

definition raggedScreenPanned :: "gostring list" where
  "raggedScreenPanned =
     [[glyphTopMiddle, glyphHorizontal, glyphTopMiddle],
      [glyphVertical, 98, glyphVertical],
      [glyphMidMiddle, glyphHorizontal, glyphMidMiddle],
      [glyphVertical],
      [glyphBottomMiddle, glyphHorizontal, glyphBottomMiddle]]"

definition raggedPager :: "int \<Rightarrow> gostring list option \<Rightarrow> Pager" where
  "raggedPager shift prev =
     \<lparr>horizontalShift = shift, maxWidth = [1, 1, 1], fileBytes = raggedFile, fileOffset = 0,
      prevPrintableLines = prev\<rparr>"

definition raggedPager' :: "int \<Rightarrow> Pager'" where
  "raggedPager' shift =
     \<lparr>currentOffset' = 0, horizontalShift' = shift, maxFields' = 3, maxWidth' = 1,
      fileBytes' = raggedFile, fileOffset' = 0\<rparr>"




text \<open>A file whose second line is narrower than its first, its first screen on a terminal
  two lines high, and the states of the session that moves down one line.\<close>

definition shrinkingFile :: "char list" where
  "shrinkingFile = ''hello'' @ [NL] @ ''a'' @ [NL]"

definition shrinkingScreen :: "gostring list" where
  "shrinkingScreen =
     [[glyphTopLeft, glyphHorizontal, glyphHorizontal, glyphHorizontal, glyphHorizontal,
       glyphHorizontal, glyphTopRight],
      [glyphVertical, 104, 101, 108, 108, 111, glyphVertical]]"

definition shrinkingPager :: "int \<Rightarrow> gostring list option \<Rightarrow> Pager" where
  "shrinkingPager off prev =
     \<lparr>horizontalShift = 0, maxWidth = [5], fileBytes = shrinkingFile, fileOffset = off,
      prevPrintableLines = prev\<rparr>"

definition shrinkingPager' :: "int \<Rightarrow> Pager'" where
  "shrinkingPager' off =
     \<lparr>currentOffset' = off, horizontalShift' = 0, maxFields' = 1, maxWidth' = 5,
      fileBytes' = shrinkingFile, fileOffset' = off\<rparr>"

section \<open>Properties of the navigator\<close>

subsection \<open>The scans as list functions\<close>

lemma seekForwardScan_eof:
  "int (length bs) \<le> res \<Longrightarrow> seekForwardScan bs e res = Inr (int (length bs))"
  by (subst seekForwardScan.simps) (simp add: readAt_def)

lemma seekForwardScan_passed:
  "0 \<le> res \<Longrightarrow> res \<le> int (length bs) \<Longrightarrow>
   seekForwardScan bs e res = Inr (res + int (forwardPassed e (drop (nat res) bs)))"
proof (induction bs e res rule: seekForwardScan.induct)
  case (1 bs enteredNL res)
  show ?case
  proof (cases "res = int (length bs)")
    case True
    then show ?thesis by (simp add: seekForwardScan_eof)
  next
    case False
    with 1 have lt: "nat res < length bs" by simp
    have s: "nat (res + 1) = Suc (nat res)"
      using "1.prems" by simp
    have d: "drop (nat res) bs = bs ! nat res # drop (nat (res + 1)) bs"
      using lt by (simp add: s Cons_nth_drop_Suc)
    have r: "readAt bs res = Inr (bs ! nat res)"
      using lt "1.prems" by (simp add: readAt_def)
    show ?thesis
      using 1 lt r by (subst seekForwardScan.simps) (simp add: d)
  qed
qed

lemma backwardResult_short: "length xs \<le> 1 \<Longrightarrow> backwardResult a t (rev xs) = 0"
  by (cases xs) (auto simp: le_Suc_eq)

lemma seekBackScan_low: "res \<le> 0 \<Longrightarrow> seekBackScan bs a b res = Inr 0"
  by (subst seekBackScan.simps) simp

lemma seekBackScan_result:
  "- 1 \<le> res \<Longrightarrow> res < int (length bs) \<Longrightarrow>
   seekBackScan bs a t res = Inr (int (backwardResult a t (rev (take (nat (res + 1)) bs))))"
proof (induction bs a t res rule: seekBackScan.induct)
  case (1 bs enteredNL enteredText res)
  show ?case
  proof (cases "res \<le> 0")
    case True
    then have "length (take (nat (res + 1)) bs) \<le> 1" by simp
    then have "backwardResult enteredNL enteredText (rev (take (nat (res + 1)) bs)) = 0"
      by (rule backwardResult_short)
    then show ?thesis using True by (simp add: seekBackScan_low)
  next
    case False
    then have pos: "0 < res" by simp
    with 1 have lt: "nat res < length bs" by simp
    have r: "readAt bs res = Inr (bs ! nat res)"
      using lt pos by (simp add: readAt_def)
    have t: "take (nat (res + 1)) bs = take (nat res) bs @ [bs ! nat res]"
      using lt pos by (simp add: nat_add_distrib take_Suc_conv_app_nth [symmetric])
    obtain x xs where c: "rev (take (nat res) bs) = x # xs"
      using pos lt by (cases "rev (take (nat res) bs)") auto
    have len: "int (length xs) + 1 = res"
    proof -
      have "length (rev (take (nat res) bs)) = nat res" using lt by simp
      then show ?thesis using c pos by simp
    qed
    have n: "nat (res - 1 + 1) = nat res" by simp
    show ?thesis
      using 1 pos lt r len
      by (subst seekBackScan.simps) (auto simp: t c n)
  qed
qed

lemma forwardPassed_True_text: "b \<noteq> NL \<Longrightarrow> forwardPassed True (b # bs) = 0"
  by simp

lemma forwardPassed_spec:
  "\<not> adjacentNL xs \<Longrightarrow> forwardPassed False xs = nextLineStart xs"
  by (induction xs rule: nextLineStart.induct) auto

lemma adjacentNL_Cons: "adjacentNL xs \<Longrightarrow> adjacentNL (x # xs)"
  by (cases xs) auto

lemma adjacentNL_drop: "adjacentNL (drop n xs) \<Longrightarrow> adjacentNL xs"
proof (induction xs arbitrary: n)
  case Nil
  then show ?case by simp
next
  case (Cons x xs)
  show ?case
  proof (cases n)
    case 0
    with Cons.prems show ?thesis by simp
  next
    case (Suc m)
    with Cons have "adjacentNL xs" by simp
    then show ?thesis by (rule adjacentNL_Cons)
  qed
qed

lemma adjacentNL_nth:
  "Suc i < length xs \<Longrightarrow> xs ! i = NL \<Longrightarrow> xs ! Suc i = NL \<Longrightarrow> adjacentNL xs"
proof (induction xs arbitrary: i rule: adjacentNL.induct)
  case (1 b c rest)
  then show ?case by (cases i) auto
qed auto

lemma backwardResult_text:
  "xs = [] \<or> last xs \<noteq> NL \<Longrightarrow>
   backwardResult True True xs = length (dropWhile (\<lambda>b. b \<noteq> NL) xs)"
  by (induction "True" "True" xs rule: backwardResult.induct) (auto split: if_splits)

lemma adjacentNL_iff:
  "adjacentNL xs \<longleftrightarrow> (\<exists>i. Suc i < length xs \<and> xs ! i = NL \<and> xs ! Suc i = NL)"
proof
  show "adjacentNL xs \<Longrightarrow> \<exists>i. Suc i < length xs \<and> xs ! i = NL \<and> xs ! Suc i = NL"
  proof (induction xs rule: adjacentNL.induct)
    case (1 b c rest)
    show ?case
    proof (cases "b = NL \<and> c = NL")
      case True
      then have "Suc 0 < length (b # c # rest) \<and> (b # c # rest) ! 0 = NL \<and> (b # c # rest) ! Suc 0 = NL"
        by simp
      then show ?thesis by blast
    next
      case False
      with 1 obtain i where "Suc i < length (c # rest)" "(c # rest) ! i = NL" "(c # rest) ! Suc i = NL"
        by auto
      then have "Suc (Suc i) < length (b # c # rest) \<and> (b # c # rest) ! Suc i = NL \<and> (b # c # rest) ! Suc (Suc i) = NL"
        by simp
      then show ?thesis by blast
    qed
  qed auto
next
  show "\<exists>i. Suc i < length xs \<and> xs ! i = NL \<and> xs ! Suc i = NL \<Longrightarrow> adjacentNL xs"
    using adjacentNL_nth by blast
qed

lemma adjacentNL_rev: "adjacentNL (rev ys) \<Longrightarrow> adjacentNL ys"
proof -
  assume "adjacentNL (rev ys)"
  then obtain i where i: "Suc i < length ys" "rev ys ! i = NL" "rev ys ! Suc i = NL"
    by (auto simp: adjacentNL_iff)
  define j where "j = length ys - Suc (Suc i)"
  have j: "Suc j < length ys" "length ys - Suc i = Suc j" "length ys - Suc (Suc i) = j"
    using i(1) by (simp_all add: j_def)
  have "ys ! Suc j = NL" using i(1,2) j by (simp add: rev_nth)
  moreover have "ys ! j = NL" using i(1,3) j by (simp add: rev_nth)
  ultimately show "adjacentNL ys" using j(1) adjacentNL_nth by blast
qed

lemma adjacentNL_take: "adjacentNL (take n xs) \<Longrightarrow> adjacentNL xs"
proof -
  assume "adjacentNL (take n xs)"
  then obtain i where i: "Suc i < length (take n xs)" "take n xs ! i = NL" "take n xs ! Suc i = NL"
    by (auto simp: adjacentNL_iff)
  then have "Suc i < length xs" "xs ! i = NL" "xs ! Suc i = NL" by auto
  then show "adjacentNL xs" by (rule adjacentNL_nth)
qed

lemma adjacentNL_rev_take: "adjacentNL (rev (take n xs)) \<Longrightarrow> adjacentNL xs"
  by (blast dest: adjacentNL_rev adjacentNL_take)

lemma backwardResult_spec:
  assumes "last (NL # rest) \<noteq> NL" "\<not> adjacentNL (NL # rest)"
  shows "backwardResult False False (NL # rest) = length (dropWhile (\<lambda>b. b \<noteq> NL) rest)"
proof (cases rest)
  case Nil
  with assms show ?thesis by simp
next
  case (Cons x xs)
  with assms have x: "x \<noteq> NL" by auto
  show ?thesis
  proof (cases xs)
    case Nil
    with Cons x show ?thesis by simp
  next
    case (Cons y ys)
    with assms \<open>rest = x # xs\<close> have "last (y # ys) \<noteq> NL" by simp
    then have "backwardResult True True (y # ys) = length (dropWhile (\<lambda>b. b \<noteq> NL) (y # ys))"
      by (intro backwardResult_text) simp
    with Cons \<open>rest = x # xs\<close> x show ?thesis by simp
  qed
qed

lemma seekBackScan_spec:
  assumes "lineStart bs off" "\<not> hasEmptyLine bs"
  shows "seekBackScan bs False False (off - 1) = Inr (seekPreviousLineStart_spec bs off)"
proof (cases "off = 0")
  case True
  then show ?thesis
    by (simp add: seekBackScan_low seekPreviousLineStart_spec_def)
next
  case False
  with assms have off: "0 < off" "off \<le> int (length bs)" "bs ! nat (off - 1) = NL"
    by (auto simp: lineStart_def)
  let ?pre = "rev (take (nat off) bs)"
  have len: "length (take (nat off) bs) = nat off" using off by simp
  have ne: "take (nat off) bs \<noteq> []" using off by auto
  have hd: "hd ?pre = NL"
    using off ne len by (simp add: hd_rev last_conv_nth nat_diff_distrib)
  obtain rest where pre: "?pre = NL # rest"
    using hd ne by (cases ?pre) auto
  have "bs \<noteq> []" using off by auto
  then have "hd bs \<noteq> NL" using assms(2) by (cases bs) (auto simp: hasEmptyLine_def)
  moreover have "last ?pre = hd bs" using ne off by (simp add: last_rev)
  ultimately have l: "last (NL # rest) \<noteq> NL" using pre by simp
  have "\<not> adjacentNL bs" using assms(2) by (simp add: hasEmptyLine_def)
  then have "\<not> adjacentNL ?pre" using adjacentNL_rev_take by blast
  then have a: "\<not> adjacentNL (NL # rest)" using pre by simp
  have "seekBackScan bs False False (off - 1) =
        Inr (int (backwardResult False False (rev (take (nat (off - 1 + 1)) bs))))"
    using off by (intro seekBackScan_result) auto
  also have "\<dots> = Inr (int (backwardResult False False (NL # rest)))"
    using pre by simp
  also have "\<dots> = Inr (seekPreviousLineStart_spec bs off)"
    using backwardResult_spec [OF l a] pre by (simp add: seekPreviousLineStart_spec_def)
  finally show ?thesis .
qed

lemma seekForwardScan_spec:
  assumes "0 \<le> off" "off \<le> int (length bs)" "\<not> adjacentNL bs"
  shows "seekForwardScan bs False off = Inr (seekNextLineStart_spec bs off)"
proof -
  have "\<not> adjacentNL (drop (nat off) bs)" using assms(3) adjacentNL_drop by blast
  then show ?thesis
    using assms by (simp add: seekForwardScan_passed forwardPassed_spec seekNextLineStart_spec_def)
qed

lemma forwardPassed_rest:
  "forwardPassed e xs \<le> length xs \<and>
   (forwardPassed e xs < length xs \<longrightarrow>
      xs ! forwardPassed e xs \<noteq> NL \<and>
      (if forwardPassed e xs = 0 then e else xs ! (forwardPassed e xs - 1) = NL))"
proof (induction xs arbitrary: e)
  case Nil
  then show ?case by simp
next
  case (Cons b bs)
  show ?case
    using Cons [of True] Cons [of e]
    by (auto simp: nth_Cons' split: if_splits)
qed

lemma seekForwardScan_rest:
  assumes "0 \<le> off" "off \<le> int (length bs)"
  shows "\<exists>r. seekForwardScan bs False off = Inr r \<and> off \<le> r \<and> (r = int (length bs) \<or> onText bs r)"
proof -
  let ?xs = "drop (nat off) bs"
  let ?k = "forwardPassed False ?xs"
  have r: "seekForwardScan bs False off = Inr (off + int ?k)"
    using assms by (rule seekForwardScan_passed)
  have len: "length ?xs = length bs - nat off" by simp
  from forwardPassed_rest [of False ?xs]
  have k: "?k \<le> length ?xs"
    "?k < length ?xs \<Longrightarrow> ?xs ! ?k \<noteq> NL \<and> 0 < ?k \<and> ?xs ! (?k - 1) = NL"
    by (auto split: if_splits)
  show ?thesis
  proof (cases "?k < length ?xs")
    case False
    with k(1) have "off + int ?k = int (length bs)" using assms by simp
    with r show ?thesis using assms by auto
  next
    case True
    with k(2) have t: "?xs ! ?k \<noteq> NL" "0 < ?k" "?xs ! (?k - 1) = NL" by auto
    have i1: "nat (off + int ?k) = nat off + ?k" using assms by (simp add: nat_add_distrib)
    have i2: "nat (off + int ?k - 1) = nat off + (?k - 1)" using assms t(2) by (simp add: nat_diff_distrib nat_add_distrib)
    have "bs ! nat (off + int ?k) \<noteq> NL" using t(1) True assms by (simp add: i1)
    moreover have "bs ! nat (off + int ?k - 1) = NL" using t(3) True assms by (simp add: i2)
    moreover have "off + int ?k < int (length bs)" using True assms by simp
    moreover have "0 < off + int ?k" using t(2) assms by simp
    ultimately have "onText bs (off + int ?k)" by (simp add: onText_def)
    with r show ?thesis by auto
  qed
qed

lemma seekBackScan_rest:
  "seekBackScan bs a t res = Inr r \<Longrightarrow> res < int (length bs) \<Longrightarrow>
   (t \<longrightarrow> a \<and> res + 1 < int (length bs) \<and> bs ! nat (res + 1) \<noteq> NL) \<Longrightarrow>
   r = 0 \<or> onText bs r"
proof (induction bs a t res rule: seekBackScan.induct)
  case (1 bs enteredNL enteredText res)
  show ?case
  proof (cases "res \<le> 0")
    case True
    with "1.prems"(1) show ?thesis by (simp add: seekBackScan_low)
  next
    case False
    then have pos: "0 < res" by simp
    have rd: "readAt bs res = Inr (bs ! nat res)"
      using pos "1.prems"(2) by (simp add: readAt_def)
    have n: "nat (res - 1 + 1) = nat res" "nat (res + 1 - 1) = nat res" by simp_all
    from "1.prems"(1) have e: "(if bs ! nat res = NL \<and> \<not> enteredNL then seekBackScan bs True enteredText (res - 1)
               else if bs ! nat res \<noteq> NL \<and> enteredNL then seekBackScan bs enteredNL True (res - 1)
               else if bs ! nat res = NL \<and> enteredText then Inr (res + 1)
               else seekBackScan bs enteredNL enteredText (res - 1)) = Inr r"
      using pos rd by (subst (asm) seekBackScan.simps) simp
    show ?thesis
      using "1.IH" [OF False rd] e "1.prems"(2,3) pos
      by (auto simp: n onText_def split: if_splits)
  qed
qed

subsection \<open>Forward seek\<close>

text \<open>
  Claim C5, amended. For every file with no two adjacent newline bytes and every offset
  inside it, the forward line seek (both revisions) returns what the specification's
  \<^verbatim>\<open>seekNextLineStart\<close> describes: the offset just past the first newline at or after
  the cursor that is followed by at least one more byte, and the file's end offset when
  there is none. The cursor is left at that offset.
\<close>

theorem seekForwardLine_next_line_start:
  "(0 \<le> fileOffset p \<and> fileOffset p \<le> int (length (fileBytes p)) \<and> \<not> adjacentNL (fileBytes p) \<longrightarrow>
      seekForwardLine p =
        Inr (seekNextLineStart_spec (fileBytes p) (fileOffset p),
             p\<lparr>fileOffset := seekNextLineStart_spec (fileBytes p) (fileOffset p)\<rparr>)) \<and>
   (0 \<le> currentOffset' q \<and> currentOffset' q \<le> int (length (fileBytes' q)) \<and>
      \<not> adjacentNL (fileBytes' q) \<longrightarrow>
      seekForwardLine' q =
        Inr (seekNextLineStart_spec (fileBytes' q) (currentOffset' q),
             q\<lparr>fileOffset' := seekNextLineStart_spec (fileBytes' q) (currentOffset' q),
               currentOffset' := seekNextLineStart_spec (fileBytes' q) (currentOffset' q)\<rparr>))"
  by (simp add: seekForwardLine_def seekForwardLine'_def seekForwardScan_spec)

theorem seekForwardLine_next_line_start_witness:
  "(0::int) \<le> 4 \<and> 4 \<le> int (length threeLines) \<and> \<not> adjacentNL threeLines \<and>
   seekForwardLine (pagerAt threeLines 4) = Inr (10, pagerAt threeLines 10) \<and>
   seekForwardLine' (pagerAt' threeLines 4) = Inr (10, pagerAt' threeLines 10)"
  using seekForwardLine_next_line_start [of "pagerAt threeLines 4" "pagerAt' threeLines 4"]
  by (simp add: pagerAt_def pagerAt'_def threeLines_def NL_def seekNextLineStart_spec_def)

text \<open>
  Claim C5 as stated fails on a file with an empty line: in \<open>blankLineFile\<close> (a, newline, newline, b, newline) the newline
  at offset 1 is followed by one more byte, so the claim gives offset 2; the scan goes
  on to the first byte that is not a newline and returns 3.
\<close>

theorem seekForwardLine_next_line_start_counterexample:
  "seekForwardLine (pagerAt blankLineFile 0) = Inr (3, pagerAt blankLineFile 3) \<and>
   seekForwardLine' (pagerAt' blankLineFile 0) = Inr (3, pagerAt' blankLineFile 3) \<and>
   seekNextLineStart_spec blankLineFile 0 = 2"
  by (simp add: seekForwardLine_def seekForwardLine'_def seekForwardScan_passed pagerAt_def
      pagerAt'_def blankLineFile_def NL_def seekNextLineStart_spec_def)

subsection \<open>Backward seek\<close>

text \<open>
  Claim C4, amended. For every file without an empty logical line (it does not start
  with a newline and has no two adjacent newlines) and every cursor offset that is a
  line start, the backward line seek (both revisions) skips the newline just behind the
  cursor, scans back to the next newline and returns the offset after it, the start of
  the previous line; it returns 0 when the start of the file comes first.
\<close>

theorem seekBackLine_previous_line_start:
  "(lineStart (fileBytes p) (fileOffset p) \<and> \<not> hasEmptyLine (fileBytes p) \<longrightarrow>
      seekBackLine p =
        Inr (seekPreviousLineStart_spec (fileBytes p) (fileOffset p),
             p\<lparr>fileOffset := seekPreviousLineStart_spec (fileBytes p) (fileOffset p)\<rparr>)) \<and>
   (lineStart (fileBytes' q) (fileOffset' q) \<and> \<not> hasEmptyLine (fileBytes' q) \<longrightarrow>
      seekBackLine' q =
        Inr (seekPreviousLineStart_spec (fileBytes' q) (fileOffset' q),
             q\<lparr>fileOffset' := seekPreviousLineStart_spec (fileBytes' q) (fileOffset' q),
               currentOffset' := seekPreviousLineStart_spec (fileBytes' q) (fileOffset' q)\<rparr>))"
  by (simp add: seekBackLine_def seekBackLine'_def seekBackScan_spec)

theorem seekBackLine_previous_line_start_witness:
  "lineStart threeLines 10 \<and> \<not> hasEmptyLine threeLines \<and>
   seekBackLine (pagerAt threeLines 10) = Inr (4, pagerAt threeLines 4) \<and>
   seekBackLine' (pagerAt' threeLines 10) = Inr (4, pagerAt' threeLines 4)"
  using seekBackLine_previous_line_start [of "pagerAt threeLines 10" "pagerAt' threeLines 10"]
  by (simp add: pagerAt_def pagerAt'_def threeLines_def NL_def seekPreviousLineStart_spec_def
      lineStart_def hasEmptyLine_def)

text \<open>
  Claim C4 as stated fails on a file with an empty line: in \<open>blankLineFile\<close> (a, newline, newline, b, newline) offset 3 is
  a line start; behind its newline at 2 the next newline is at 1, so the claim gives
  offset 2, while the scan passes both newlines and the text before them and returns 0.
\<close>

theorem seekBackLine_previous_line_start_counterexample:
  "lineStart blankLineFile 3 \<and>
   seekBackLine (pagerAt blankLineFile 3) = Inr (0, pagerAt blankLineFile 0) \<and>
   seekBackLine' (pagerAt' blankLineFile 3) = Inr (0, pagerAt' blankLineFile 0) \<and>
   seekPreviousLineStart_spec blankLineFile 3 = 2"
  by (simp add: seekBackLine_def seekBackLine'_def seekBackScan_result pagerAt_def
      pagerAt'_def blankLineFile_def NL_def seekPreviousLineStart_spec_def lineStart_def)

subsection \<open>Where the cursor comes to rest\<close>

lemma onText_not_atEmptyLine: "onText bs r \<Longrightarrow> \<not> atEmptyLine bs r"
  by (simp add: onText_def atEmptyLine_def)

lemma seekBackScan_rest_ex:
  assumes "0 \<le> off" "off \<le> int (length bs)"
  shows "\<exists>r. seekBackScan bs False False (off - 1) = Inr r \<and> (r = 0 \<or> onText bs r)"
proof -
  have "seekBackScan bs False False (off - 1) =
        Inr (int (backwardResult False False (rev (take (nat (off - 1 + 1)) bs))))"
    using assms by (intro seekBackScan_result) auto
  moreover from this have "int (backwardResult False False (rev (take (nat (off - 1 + 1)) bs))) = 0 \<or>
     onText bs (int (backwardResult False False (rev (take (nat (off - 1 + 1)) bs))))"
    using assms by (intro seekBackScan_rest [of bs False False "off - 1"]) auto
  ultimately show ?thesis by blast
qed

lemma forwardPassed_True_newlines:
  "forwardPassed True xs = length (takeWhile (\<lambda>b. b = NL) xs)"
  by (induction xs) auto

lemma forwardPassed_boundary: "forwardPassed False xs = passLineBoundary xs"
  by (induction xs) (auto simp: passLineBoundary_def forwardPassed_True_newlines)

lemma backwardResult_TT:
  "backwardResult True True ys =
     (if length (dropWhile (\<lambda>b. b \<noteq> NL) ys) \<le> 1 then 0
      else length (dropWhile (\<lambda>b. b \<noteq> NL) ys))"
  by (induction True True ys rule: backwardResult.induct) auto

lemma backwardResult_TF:
  "backwardResult True False ys =
     (if length (dropWhile (\<lambda>b. b \<noteq> NL) (dropWhile (\<lambda>b. b = NL) ys)) \<le> 1 then 0
      else length (dropWhile (\<lambda>b. b \<noteq> NL) (dropWhile (\<lambda>b. b = NL) ys)))"
  by (induction True False ys rule: backwardResult.induct) (auto simp: backwardResult_TT)

lemma backwardResult_boundary: "backwardResult False False ys = beforeLineBoundary ys"
  by (induction False False ys rule: backwardResult.induct)
    (auto simp: beforeLineBoundary_def backwardResult_TF Let_def)

lemma seekForwardScan_boundary:
  assumes "0 \<le> off" "off \<le> int (length bs)"
  shows "\<exists>r. seekForwardScan bs False off = Inr r \<and>
           r = off + int (passLineBoundary (drop (nat off) bs)) \<and>
           (r = int (length bs) \<or> onText bs r) \<and> \<not> atEmptyLine bs r"
  using seekForwardScan_rest [OF assms] seekForwardScan_passed [OF assms, of False]
  by (auto simp: forwardPassed_boundary onText_def atEmptyLine_def)

lemma seekBackScan_boundary:
  assumes "0 \<le> off" "off \<le> int (length bs)"
  shows "\<exists>r. seekBackScan bs False False (off - 1) = Inr r \<and>
           r = int (beforeLineBoundary (rev (take (nat off) bs))) \<and>
           (r = 0 \<or> onText bs r) \<and> (atEmptyLine bs r \<longrightarrow> r = 0)"
proof -
  have "seekBackScan bs False False (off - 1) =
        Inr (int (backwardResult False False (rev (take (nat (off - 1 + 1)) bs))))"
    using assms by (intro seekBackScan_result) auto
  then have "seekBackScan bs False False (off - 1) =
        Inr (int (beforeLineBoundary (rev (take (nat off) bs))))"
    by (simp add: backwardResult_boundary)
  then show ?thesis
    using seekBackScan_rest_ex [OF assms] by (auto simp: onText_def atEmptyLine_def)
qed

text \<open>
  Claim C10, amended. Both line seeks treat a run of consecutive newline bytes as one
  line boundary, from every offset inside the file and without a panic. The forward seek
  passes the text up to the next newline and then the whole run of newlines: it returns
  the offset of the first byte after that run, a byte that is not a newline and follows
  one, or the end of the file when no such byte is left; it never rests at the start of
  an empty line. The backward seek passes the text behind the cursor, then, in its first
  phase, all contiguous newlines, then the text before them, and returns the offset just
  after the newline that precedes this text; it returns 0 when no such newline is found
  above offset 0, whose byte is never read. So it rests on a byte that is not a newline
  and follows one, or at offset 0, and at the start of an empty line only at offset 0.
\<close>

theorem seeks_pass_newline_runs:
  "(0 \<le> fileOffset pf \<and> fileOffset pf \<le> int (length (fileBytes pf)) \<longrightarrow>
      (\<exists>r. seekForwardLine pf = Inr (r, pf\<lparr>fileOffset := r\<rparr>) \<and>
           r = fileOffset pf + int (passLineBoundary (drop (nat (fileOffset pf)) (fileBytes pf))) \<and>
           (r = int (length (fileBytes pf)) \<or> onText (fileBytes pf) r) \<and>
           \<not> atEmptyLine (fileBytes pf) r)) \<and>
   (0 \<le> fileOffset pb \<and> fileOffset pb \<le> int (length (fileBytes pb)) \<longrightarrow>
      (\<exists>r. seekBackLine pb = Inr (r, pb\<lparr>fileOffset := r\<rparr>) \<and>
           r = int (beforeLineBoundary (rev (take (nat (fileOffset pb)) (fileBytes pb)))) \<and>
           (r = 0 \<or> onText (fileBytes pb) r) \<and>
           (atEmptyLine (fileBytes pb) r \<longrightarrow> r = 0))) \<and>
   (0 \<le> currentOffset' qf \<and> currentOffset' qf \<le> int (length (fileBytes' qf)) \<longrightarrow>
      (\<exists>r. seekForwardLine' qf = Inr (r, qf\<lparr>fileOffset' := r, currentOffset' := r\<rparr>) \<and>
           r = currentOffset' qf +
               int (passLineBoundary (drop (nat (currentOffset' qf)) (fileBytes' qf))) \<and>
           (r = int (length (fileBytes' qf)) \<or> onText (fileBytes' qf) r) \<and>
           \<not> atEmptyLine (fileBytes' qf) r)) \<and>
   (0 \<le> fileOffset' qb \<and> fileOffset' qb \<le> int (length (fileBytes' qb)) \<longrightarrow>
      (\<exists>r. seekBackLine' qb = Inr (r, qb\<lparr>fileOffset' := r, currentOffset' := r\<rparr>) \<and>
           r = int (beforeLineBoundary (rev (take (nat (fileOffset' qb)) (fileBytes' qb)))) \<and>
           (r = 0 \<or> onText (fileBytes' qb) r) \<and>
           (atEmptyLine (fileBytes' qb) r \<longrightarrow> r = 0)))"
  using seekForwardScan_boundary [of "fileOffset pf" "fileBytes pf"]
    seekBackScan_boundary [of "fileOffset pb" "fileBytes pb"]
    seekForwardScan_boundary [of "currentOffset' qf" "fileBytes' qf"]
    seekBackScan_boundary [of "fileOffset' qb" "fileBytes' qb"]
  by (auto simp: seekForwardLine_def seekBackLine_def seekForwardLine'_def seekBackLine'_def)

theorem seeks_pass_newline_runs_witness:
  "(0::int) \<le> 2 \<and> 2 \<le> int (length innerBlankFile) \<and> 5 \<le> int (length innerBlankFile) \<and>
   adjacentNL innerBlankFile \<and>
   seekForwardLine (pagerAt innerBlankFile 2) = Inr (5, pagerAt innerBlankFile 5) \<and>
   seekBackLine (pagerAt innerBlankFile 5) = Inr (2, pagerAt innerBlankFile 2) \<and>
   seekForwardLine' (pagerAt' innerBlankFile 2) = Inr (5, pagerAt' innerBlankFile 5) \<and>
   seekBackLine' (pagerAt' innerBlankFile 5) = Inr (2, pagerAt' innerBlankFile 2) \<and>
   passLineBoundary (drop 2 innerBlankFile) = 3 \<and>
   beforeLineBoundary (rev (take 5 innerBlankFile)) = 2 \<and>
   onText innerBlankFile 5 \<and> onText innerBlankFile 2 \<and>
   \<not> atEmptyLine innerBlankFile 5 \<and> \<not> atEmptyLine innerBlankFile 2"
  using seeks_pass_newline_runs [where pf = "pagerAt innerBlankFile 2" and pb = "pagerAt innerBlankFile 5"
      and qf = "pagerAt' innerBlankFile 2" and qb = "pagerAt' innerBlankFile 5"]
  by (simp add: pagerAt_def pagerAt'_def innerBlankFile_def NL_def onText_def atEmptyLine_def
      lineStart_def passLineBoundary_def beforeLineBoundary_def)

text \<open>
  Claim C10 as stated fails at offset 0: in \<open>leadingBlankFile\<close> (newline, newline, a), which holds adjacent newlines,
  the backward seek from offset 2 returns 0, the start of an empty logical line.
\<close>

theorem seeks_pass_newline_runs_counterexample:
  "adjacentNL leadingBlankFile \<and>
   seekBackLine (pagerAt leadingBlankFile 2) = Inr (0, pagerAt leadingBlankFile 0) \<and>
   seekBackLine' (pagerAt' leadingBlankFile 2) = Inr (0, pagerAt' leadingBlankFile 0) \<and>
   atEmptyLine leadingBlankFile 0"
  by (simp add: seekBackLine_def seekBackLine'_def seekBackScan_result pagerAt_def
      pagerAt'_def leadingBlankFile_def NL_def atEmptyLine_def lineStart_def)

subsection \<open>Moving by several lines\<close>

lemma forRange_iterate: "forRange i hi body s = iterate (nat (hi - i)) body s"
proof (induction i hi body s rule: forRange.induct)
  case (1 i hi body s)
  show ?case
  proof (cases "i < hi")
    case True
    then have n: "nat (hi - i) = Suc (nat (hi - (i + 1)))" by simp
    show ?thesis
      using True 1 by (subst forRange.simps) (simp add: n split: sum.splits)
  next
    case False
    then show ?thesis by (subst forRange.simps) simp
  qed
qed


































section \<open>Properties of the reader and the renderer\<close>

subsection \<open>Column metrics\<close>

lemma zipMax_Nil2: "zipMax xs [] = xs"
  by (cases xs) simp_all

lemma zipMax_assoc: "zipMax (zipMax xs ys) zs = zipMax xs (zipMax ys zs)"
proof (induction xs ys arbitrary: zs rule: zipMax.induct)
  case (1 ys)
  show ?case by simp
next
  case (2 x xs)
  show ?case by simp
next
  case (3 x xs y ys)
  then show ?case by (cases zs) (simp_all add: max.assoc)
qed

lemma widen_fold:
  "foldl (\<lambda>m (f, field). m[f := max (m ! f) (int (length field))])
     (pre @ growTo mw (length r)) (zip [length pre..<length pre + length r] r) =
   pre @ zipMax mw (recordWidths r)"
proof (induction r arbitrary: pre mw)
  case Nil
  show ?case by (simp add: growTo_def recordWidths_def zipMax_Nil2)
next
  case (Cons field rest)
  define h where "h = (case mw of [] \<Rightarrow> 0 | w # ws \<Rightarrow> w)"
  have g: "growTo mw (length (field # rest)) = h # growTo (tl mw) (length rest)"
    by (cases mw) (simp_all add: growTo_def h_def replicate_app_Cons_same)
  have z: "zipMax mw (recordWidths (field # rest)) =
      max h (int (length field)) # zipMax (tl mw) (recordWidths rest)"
    by (cases mw) (simp_all add: recordWidths_def h_def)
  have u: "zip [length pre..<length pre + length (field # rest)] (field # rest) =
      (length pre, field) # zip [length (pre @ [max h (int (length field))])..<
         length (pre @ [max h (int (length field))]) + length rest] rest"
    by (simp add: upt_conv_Cons del: upt_Suc)
  have "foldl (\<lambda>m (f, field). m[f := max (m ! f) (int (length field))])
     (pre @ growTo mw (length (field # rest)))
     (zip [length pre..<length pre + length (field # rest)] (field # rest)) =
     foldl (\<lambda>m (f, field). m[f := max (m ! f) (int (length field))])
     ((pre @ [max h (int (length field))]) @ growTo (tl mw) (length rest))
     (zip [length (pre @ [max h (int (length field))])..<
         length (pre @ [max h (int (length field))]) + length rest] rest)"
    unfolding u g by simp
  also have "\<dots> = (pre @ [max h (int (length field))]) @ zipMax (tl mw) (recordWidths rest)"
    by (rule Cons.IH)
  finally show ?case by (simp add: z)
qed

lemma widen_zipMax: "widen mw r = zipMax mw (recordWidths r)"
  using widen_fold [of "[]" mw r] by (simp add: widen_def)

lemma foldl_widen: "foldl widen mw recs = zipMax mw (windowWidths recs)"
proof (induction recs arbitrary: mw)
  case Nil
  show ?case by (simp add: windowWidths_def zipMax_Nil2)
next
  case (Cons r recs)
  have a: "foldl widen mw (r # recs) = zipMax (widen mw r) (windowWidths recs)"
    using Cons [of "widen mw r"] by simp
  have b: "zipMax (widen mw r) (windowWidths recs) = zipMax mw (windowWidths (r # recs))"
    unfolding widen_zipMax by (simp add: zipMax_assoc windowWidths_def)
  show ?case by (rule trans [OF a b])
qed

lemma readLines_loop_fold:
  "readLines_loop i fitting items mw res = Inr (mw', res') \<Longrightarrow>
   \<exists>recs. res' = res @ recs \<and> mw' = foldl widen mw recs"
proof (induction i fitting items mw res rule: readLines_loop.induct)
  case (1 i fitting mw res)
  then show ?case by simp
next
  case (2 i fitting rest mw res)
  then show ?case by (simp split: if_splits)
next
  case (3 i fitting r rest mw res)
  show ?case
  proof (cases "i < fitting")
    case True
    with 3 obtain recs where "res' = (res @ [r]) @ recs"
      "mw' = foldl widen (widen mw r) recs" by auto
    then have "res' = res @ (r # recs) \<and> mw' = foldl widen mw (r # recs)" by simp
    then show ?thesis by blast
  next
    case False
    with 3 show ?thesis by simp
  qed
qed

lemma widen'_max:
  "0 \<le> mw \<Longrightarrow> widen' mw r = max mw (foldr (\<lambda>field m. max (int (length field)) m) r 0)"
  unfolding widen'_def
proof (induction r arbitrary: mw)
  case Nil
  then show ?case by simp
next
  case (Cons a r)
  show ?case using Cons.IH [of "max mw (int (length a))"] Cons.prems by (simp add: max.assoc)
qed

lemma foldr_max_nonneg:
  "0 \<le> foldr (\<lambda>x m. max (int (length x)) m) xs (0::int)"
  by (induction xs) simp_all

lemma foldr_max_from:
  "0 \<le> c \<Longrightarrow> foldr (\<lambda>field m. max (int (length field)) m) xs c =
     max (foldr (\<lambda>field m. max (int (length field)) m) xs 0) c"
  by (induction xs) (simp_all add: max.assoc)

lemma windowWidth_Cons:
  "windowWidth (r # recs) =
     max (foldr (\<lambda>field m. max (int (length field)) m) r 0) (windowWidth recs)"
  unfolding windowWidth_def
  using foldr_max_from [OF foldr_max_nonneg, of r "concat recs"] by simp

lemma readLines_loop'_fold:
  "readLines_loop' i fitting items mf mw res = Inr (mf', mw', res') \<Longrightarrow>
   0 \<le> mf \<Longrightarrow> 0 \<le> mw \<Longrightarrow>
   \<exists>recs. res' = res @ recs \<and> mf' = max mf (windowFields recs) \<and>
          mw' = max mw (windowWidth recs)"
proof (induction i fitting items mf mw res rule: readLines_loop'.induct)
  case (1 i fitting mf mw res)
  then show ?case by (simp add: windowFields_def windowWidth_def)
next
  case (2 i fitting rest mf mw res)
  then show ?case by (simp add: windowFields_def windowWidth_def split: if_splits)
next
  case (3 i fitting r rest mf mw res)
  show ?case
  proof (cases "i < fitting")
    case True
    have "0 \<le> max mf (int (length r))" "0 \<le> widen' mw r"
      using "3.prems" by (simp_all add: widen'_max)
    with 3 True obtain recs where recs: "res' = (res @ [r]) @ recs"
      "mf' = max (max mf (int (length r))) (windowFields recs)"
      "mw' = max (widen' mw r) (windowWidth recs)" by auto
    have "res' = res @ (r # recs)" using recs(1) by simp
    moreover have "mf' = max mf (windowFields (r # recs))"
      using recs(2) by (simp add: windowFields_def max.assoc)
    moreover have "mw' = max mw (windowWidth (r # recs))"
      using recs(3) "3.prems" by (simp add: windowWidth_Cons widen'_max max.assoc)
    ultimately show ?thesis by blast
  next
    case False
    with 3 show ?thesis by (simp add: windowFields_def windowWidth_def)
  qed
qed

lemma take_fitting:
  "i < fitting \<Longrightarrow>
   take (nat (fitting - i)) (x # xs) = x # take (nat (fitting - (i + 1))) xs"
proof -
  assume "i < fitting"
  then have "nat (fitting - i) = Suc (nat (fitting - (i + 1)))" by simp
  then show ?thesis by simp
qed

lemma readLines_loop_window:
  "Bad \<notin> set (take (nat (fitting - i)) items) \<Longrightarrow>
   \<exists>mw'. readLines_loop i fitting items mw res =
           Inr (mw', res @ recordsOf (take (nat (fitting - i)) items))"
proof (induction i fitting items mw res rule: readLines_loop.induct)
  case (1 i fitting mw res)
  show ?case by simp
next
  case (2 i fitting rest mw res)
  then show ?case by (cases "i < fitting") (simp_all add: take_fitting)
next
  case (3 i fitting r rest mw res)
  show ?case
  proof (cases "i < fitting")
    case True
    with 3 show ?thesis by (simp add: take_fitting)
  next
    case False
    then show ?thesis by simp
  qed
qed

lemma readLines_loop'_window:
  "Bad \<notin> set (take (nat (fitting - i)) items) \<Longrightarrow>
   \<exists>mf' mw'. readLines_loop' i fitting items mf mw res =
           Inr (mf', mw', res @ recordsOf (take (nat (fitting - i)) items))"
proof (induction i fitting items mf mw res rule: readLines_loop'.induct)
  case (1 i fitting mf mw res)
  show ?case by simp
next
  case (2 i fitting rest mf mw res)
  then show ?case by (cases "i < fitting") (simp_all add: take_fitting)
next
  case (3 i fitting r rest mf mw res)
  show ?case
  proof (cases "i < fitting")
    case True
    with 3 show ?thesis by (simp add: take_fitting)
  next
    case False
    then show ?thesis by simp
  qed
qed

lemma readLines_window:
  assumes "getNewCSVReader e (fileBytes p) (fileOffset p) = Inr reader"
    and "Bad \<notin> set (take (nat (countLinesFitting e)) reader)"
  shows "\<exists>p1. readLines e p = Inr (windowOf e reader, p1)"
  using readLines_loop_window [of "countLinesFitting e" 0 reader "maxWidth p" "[]"] assms
  by (auto simp: readLines_def windowOf_def)

lemma readLines'_window:
  assumes "getNewCSVReader e (fileBytes' q) (fileOffset' q) = Inr reader"
    and "Bad \<notin> set (take (nat (countLinesFitting e)) reader)"
  shows "\<exists>q1. readLines' e q = Inr (windowOf e reader, q1)"
  using readLines_loop'_window [of "countLinesFitting e" 0 reader "maxFields' q" "maxWidth' q" "[]"] assms
  by (auto simp: readLines'_def windowOf_def)

text \<open>
  Claim C1, amended. The column metrics are not recomputed from the current window
  alone: every read raises the metrics that the session holds to the widths of the
  records it reads, and never lowers them. After \<^verbatim>\<open>readLines\<close> of the first revision the
  widths are, column by column, the maximum of the widths held before and the widths of
  the window's records; they are the window's own widths when no width was held before,
  as at the first render. After \<^verbatim>\<open>readLines\<close> of the second revision, whose metrics are
  never negative, \<^verbatim>\<open>maxFields\<close> and \<^verbatim>\<open>maxWidth\<close> are the maximum of the value held before
  and the window's own largest field count and field width. Nothing else of the session
  changes, but that the second revision stores the offset of the read in
  \<^verbatim>\<open>currentOffset\<close>. The records read are the window: the records among the first
  items of the parser at the cursor, as many items as lines fit, when none of them is
  malformed.
\<close>

theorem readLines_metrics_accumulate:
  "(readLines e p = Inr (recs, p1) \<longrightarrow>
      p1 = p\<lparr>maxWidth := zipMax (maxWidth p) (windowWidths recs)\<rparr> \<and>
      (maxWidth p = [] \<longrightarrow> maxWidth p1 = windowWidths recs)) \<and>
   (0 \<le> maxFields' q \<and> 0 \<le> maxWidth' q \<and> readLines' e q = Inr (recs', q1) \<longrightarrow>
      q1 = q\<lparr>currentOffset' := fileOffset' q,
              maxFields' := max (maxFields' q) (windowFields recs'),
              maxWidth' := max (maxWidth' q) (windowWidth recs')\<rparr>) \<and>
   (getNewCSVReader e (fileBytes p) (fileOffset p) = Inr reader \<and>
    Bad \<notin> set (take (nat (countLinesFitting e)) reader) \<longrightarrow>
      readLines e p =
        Inr (windowOf e reader,
             p\<lparr>maxWidth := zipMax (maxWidth p) (windowWidths (windowOf e reader))\<rparr>)) \<and>
   (0 \<le> maxFields' q \<and> 0 \<le> maxWidth' q \<and>
    getNewCSVReader e (fileBytes' q) (fileOffset' q) = Inr reader' \<and>
    Bad \<notin> set (take (nat (countLinesFitting e)) reader') \<longrightarrow>
      readLines' e q =
        Inr (windowOf e reader',
             q\<lparr>currentOffset' := fileOffset' q,
               maxFields' := max (maxFields' q) (windowFields (windowOf e reader')),
               maxWidth' := max (maxWidth' q) (windowWidth (windowOf e reader'))\<rparr>))"
proof -
  have a: "p1 = p\<lparr>maxWidth := zipMax (maxWidth p) (windowWidths recs)\<rparr>"
    if "readLines e p = Inr (recs, p1)" for recs p1
  proof -
    from that obtain reader mw where
      l: "readLines_loop 0 (countLinesFitting e) reader (maxWidth p) [] = Inr (mw, recs)"
      and p1: "p1 = p\<lparr>maxWidth := mw\<rparr>"
      by (auto simp: readLines_def split: sum.splits)
    from readLines_loop_fold [OF l] have "mw = foldl widen (maxWidth p) recs" by simp
    with p1 show ?thesis by (simp add: foldl_widen)
  qed
  have b: "q1 = q\<lparr>currentOffset' := fileOffset' q,
              maxFields' := max (maxFields' q) (windowFields recs'),
              maxWidth' := max (maxWidth' q) (windowWidth recs')\<rparr>"
    if "0 \<le> maxFields' q" "0 \<le> maxWidth' q" "readLines' e q = Inr (recs', q1)" for recs' q1
  proof -
    from that(3) obtain reader mf mw where
      l: "readLines_loop' 0 (countLinesFitting e) reader (maxFields' q) (maxWidth' q) [] =
            Inr (mf, mw, recs')"
      and q1: "q1 = q\<lparr>currentOffset' := fileOffset' q, maxFields' := mf, maxWidth' := mw\<rparr>"
      by (auto simp: readLines'_def split: sum.splits)
    from readLines_loop'_fold [OF l that(1,2)]
    have "mf = max (maxFields' q) (windowFields recs') \<and> mw = max (maxWidth' q) (windowWidth recs')"
      by simp
    with q1 show ?thesis by simp
  qed
  have c: "readLines e p =
        Inr (windowOf e reader,
             p\<lparr>maxWidth := zipMax (maxWidth p) (windowWidths (windowOf e reader))\<rparr>)"
    if "getNewCSVReader e (fileBytes p) (fileOffset p) = Inr reader"
      "Bad \<notin> set (take (nat (countLinesFitting e)) reader)"
  proof -
    from readLines_window [OF that] obtain p2 where
      r: "readLines e p = Inr (windowOf e reader, p2)" by blast
    from a [OF r] r show ?thesis by simp
  qed
  have d: "readLines' e q =
        Inr (windowOf e reader',
             q\<lparr>currentOffset' := fileOffset' q,
               maxFields' := max (maxFields' q) (windowFields (windowOf e reader')),
               maxWidth' := max (maxWidth' q) (windowWidth (windowOf e reader'))\<rparr>)"
    if "0 \<le> maxFields' q" "0 \<le> maxWidth' q"
      "getNewCSVReader e (fileBytes' q) (fileOffset' q) = Inr reader'"
      "Bad \<notin> set (take (nat (countLinesFitting e)) reader')"
  proof -
    from readLines'_window [OF that(3,4)] obtain q2 where
      r: "readLines' e q = Inr (windowOf e reader', q2)" by blast
    from b [OF that(1,2) r] r show ?thesis by simp
  qed
  show ?thesis using a [of recs p1] b [of recs' q1] c d by auto
qed

lemma plainCsv_shrinking_0:
  "plainCsv CHR '','' shrinkingFile 0 = [Rec [[104, 101, 108, 108, 111]], Rec [[97]]]"
  by (simp add: plainCsv_def shrinkingFile_def NL_def)

lemma plainCsv_shrinking_6:
  "plainCsv CHR '','' shrinkingFile 6 = [Rec [[97]]]"
  by (simp add: plainCsv_def shrinkingFile_def NL_def)

lemma readLines_shrinking_start:
  "readLines (plainEnv 80 2) (pagerAt shrinkingFile 0) =
     Inr ([[[104, 101, 108, 108, 111]]], shrinkingPager 0 None)"
  by (simp add: readLines_def getNewCSVReader_def plainEnv_def plainCsv_shrinking_0 pagerAt_def
      countLinesFitting_def signed_divide_int_def widen_def growTo_def shrinkingPager_def)

lemma readLines_shrinking_6:
  "readLines (plainEnv 80 2) (shrinkingPager 6 prev) = Inr ([[[97]]], shrinkingPager 6 prev)"
  by (simp add: readLines_def getNewCSVReader_def plainEnv_def plainCsv_shrinking_6
      countLinesFitting_def signed_divide_int_def widen_def growTo_def shrinkingPager_def)

lemma readLines'_shrinking_start:
  "readLines' (plainEnv 80 2) (pagerAt' shrinkingFile 0) =
     Inr ([[[104, 101, 108, 108, 111]]], shrinkingPager' 0)"
  by (simp add: readLines'_def getNewCSVReader_def plainEnv_def plainCsv_shrinking_0 pagerAt'_def
      countLinesFitting_def signed_divide_int_def widen'_def shrinkingPager'_def)

lemma readLines'_shrinking_6:
  "readLines' (plainEnv 80 2) (shrinkingPager' 6) = Inr ([[[97]]], shrinkingPager' 6)"
  by (simp add: readLines'_def getNewCSVReader_def plainEnv_def plainCsv_shrinking_6
      countLinesFitting_def signed_divide_int_def widen'_def shrinkingPager'_def)

lemma getPrintableLines_shrinking:
  "getPrintableLines (plainEnv 80 2) (shrinkingPager 0 prev) [[[104, 101, 108, 108, 111]]] =
     Inr shrinkingScreen"
  by (simp add: getPrintableLines_def termSize_def getTableHeaderLine_def getTableFooterLine_def
      getDataLine_def getTableLine_def countMaxJoinedLength_def getTableLine_loop.simps
      closeAndClip_def goIndex_def goSlice_def clipLine_def getDataFields_def padString_def
      sumInts_def plainEnv_def shrinkingPager_def shrinkingScreen_def)

lemma renderCSVWindow_shrinking:
  "renderCSVWindow (plainEnv 80 2) (pagerAt shrinkingFile 0) =
     Inr ((True, shrinkingScreen), shrinkingPager 0 (Some shrinkingScreen))"
  by (simp add: renderCSVWindow_def readLines_shrinking_start getPrintableLines_shrinking)
    (simp add: shrinkingPager_def)

lemma countLinesAvailable_shrinking:
  "countLinesAvailable (plainEnv 80 2) (shrinkingPager 0 prev) = Inr 1 \<and>
   countLinesAvailable (plainEnv 80 2) (shrinkingPager 6 prev) = Inr 1"
  by (simp add: countLinesAvailable_def getNewCSVReader_def plainEnv_def shrinkingPager_def
      plainCsv_shrinking_0 plainCsv_shrinking_6 countLinesFitting_def signed_divide_int_def)

lemma seekForwardLine_shrinking:
  "seekForwardLine (shrinkingPager 0 prev) = Inr (6, shrinkingPager 6 prev)"
  by (simp add: seekForwardLine_def seekForwardScan_passed shrinkingPager_def shrinkingFile_def
      NL_def)

lemma seekForwardLine'_shrinking:
  "seekForwardLine' (shrinkingPager' 0) = Inr (6, shrinkingPager' 6)"
  by (simp add: seekForwardLine'_def seekForwardScan_passed shrinkingPager'_def
      shrinkingFile_def NL_def)

lemma seekForwardN_shrinking:
  "seekForwardN (plainEnv 80 2) 1 (shrinkingPager 0 prev) = Some (Inr (shrinkingPager 6 prev))"
  by (simp add: seekForwardN_def forRange_iterate countLinesAvailable_shrinking
      seekForwardLine_shrinking dropResult_def
      seekForwardN_refill.simps [of _ _ "shrinkingPager 6 prev"])

theorem readLines_metrics_accumulate_witness:
  "getNewCSVReader (plainEnv 80 2) (fileBytes (shrinkingPager 6 None))
     (fileOffset (shrinkingPager 6 None)) = Inr [Rec [[97]]] \<and>
   getNewCSVReader (plainEnv 80 2) (fileBytes' (shrinkingPager' 6))
     (fileOffset' (shrinkingPager' 6)) = Inr [Rec [[97]]] \<and>
   windowOf (plainEnv 80 2) [Rec [[97]]] = [[[97]]] \<and>
   maxWidth (shrinkingPager 6 None) = [5] \<and> windowWidths [[[97]]] = [1] \<and>
   maxFields' (shrinkingPager' 6) = 1 \<and> maxWidth' (shrinkingPager' 6) = 5 \<and>
   windowFields [[[97]]] = 1 \<and> windowWidth [[[97]]] = 1 \<and>
   readLines (plainEnv 80 2) (shrinkingPager 6 None) =
     Inr (windowOf (plainEnv 80 2) [Rec [[97]]],
          (shrinkingPager 6 None)\<lparr>maxWidth :=
             zipMax (maxWidth (shrinkingPager 6 None))
               (windowWidths (windowOf (plainEnv 80 2) [Rec [[97]]]))\<rparr>) \<and>
   readLines' (plainEnv 80 2) (shrinkingPager' 6) =
     Inr (windowOf (plainEnv 80 2) [Rec [[97]]],
          (shrinkingPager' 6)\<lparr>currentOffset' := fileOffset' (shrinkingPager' 6),
             maxFields' := max (maxFields' (shrinkingPager' 6))
               (windowFields (windowOf (plainEnv 80 2) [Rec [[97]]])),
             maxWidth' := max (maxWidth' (shrinkingPager' 6))
               (windowWidth (windowOf (plainEnv 80 2) [Rec [[97]]]))\<rparr>) \<and>
   readLines (plainEnv 80 2) (shrinkingPager 6 None) = Inr ([[[97]]], shrinkingPager 6 None) \<and>
   readLines' (plainEnv 80 2) (shrinkingPager' 6) = Inr ([[[97]]], shrinkingPager' 6)"
proof -
  have g: "getNewCSVReader (plainEnv 80 2) (fileBytes (shrinkingPager 6 None))
      (fileOffset (shrinkingPager 6 None)) = Inr [Rec [[97]]]"
    "getNewCSVReader (plainEnv 80 2) (fileBytes' (shrinkingPager' 6))
      (fileOffset' (shrinkingPager' 6)) = Inr [Rec [[97]]]"
    by (simp_all add: getNewCSVReader_def plainEnv_def plainCsv_shrinking_6 shrinkingPager_def
        shrinkingPager'_def)
  have nb: "Bad \<notin> set (take (nat (countLinesFitting (plainEnv 80 2))) [Rec [[97]]])"
    by (simp add: countLinesFitting_def plainEnv_def signed_divide_int_def)
  have w: "windowOf (plainEnv 80 2) [Rec [[97]]] = [[[97]]]"
    by (simp add: windowOf_def countLinesFitting_def plainEnv_def signed_divide_int_def)
  have m: "maxWidth (shrinkingPager 6 None) = [5]" "windowWidths [[[97]]] = [1]"
    "maxFields' (shrinkingPager' 6) = 1" "maxWidth' (shrinkingPager' 6) = 5"
    "windowFields [[[97]]] = 1" "windowWidth [[[97]]] = 1"
    by (simp_all add: shrinkingPager_def shrinkingPager'_def windowWidths_def recordWidths_def
        windowFields_def windowWidth_def)
  have n: "0 \<le> maxFields' (shrinkingPager' 6)" "0 \<le> maxWidth' (shrinkingPager' 6)"
    by (simp_all add: m)
  note t = readLines_metrics_accumulate [where e = "plainEnv 80 2"
      and p = "shrinkingPager 6 None" and q = "shrinkingPager' 6"
      and reader = "[Rec [[97]]]" and reader' = "[Rec [[97]]]"]
  from t g nb n have r:
    "readLines (plainEnv 80 2) (shrinkingPager 6 None) =
     Inr (windowOf (plainEnv 80 2) [Rec [[97]]],
          (shrinkingPager 6 None)\<lparr>maxWidth :=
             zipMax (maxWidth (shrinkingPager 6 None))
               (windowWidths (windowOf (plainEnv 80 2) [Rec [[97]]]))\<rparr>)"
    "readLines' (plainEnv 80 2) (shrinkingPager' 6) =
     Inr (windowOf (plainEnv 80 2) [Rec [[97]]],
          (shrinkingPager' 6)\<lparr>currentOffset' := fileOffset' (shrinkingPager' 6),
             maxFields' := max (maxFields' (shrinkingPager' 6))
               (windowFields (windowOf (plainEnv 80 2) [Rec [[97]]])),
             maxWidth' := max (maxWidth' (shrinkingPager' 6))
               (windowWidth (windowOf (plainEnv 80 2) [Rec [[97]]]))\<rparr>)"
    by blast+
  show ?thesis
    using g w m r readLines_shrinking_6 [of None] readLines'_shrinking_6 by blast
qed

text \<open>
  Claim C1 as stated fails after a move to a narrower window. On a terminal two lines
  high one record fits. In \<open>shrinkingFile\<close> (hello, newline, a, newline) the first
  render makes the width 5; one line down the window is the record \<open>a\<close> alone, whose own
  width is 1, and the read leaves the width at 5. The second revision does the same with
  its single width.
\<close>

theorem readLines_metrics_accumulate_counterexample:
  "renderCSVWindow (plainEnv 80 2) (pagerAt shrinkingFile 0) =
     Inr ((True, shrinkingScreen), shrinkingPager 0 (Some shrinkingScreen)) \<and>
   seekForwardN (plainEnv 80 2) 1 (shrinkingPager 0 (Some shrinkingScreen)) =
     Some (Inr (shrinkingPager 6 (Some shrinkingScreen))) \<and>
   readLines (plainEnv 80 2) (shrinkingPager 6 (Some shrinkingScreen)) =
     Inr ([[[97]]], shrinkingPager 6 (Some shrinkingScreen)) \<and>
   maxWidth (shrinkingPager 6 (Some shrinkingScreen)) = [5] \<and>
   windowWidths [[[97]]] = [1] \<and>
   readLines' (plainEnv 80 2) (pagerAt' shrinkingFile 0) =
     Inr ([[[104, 101, 108, 108, 111]]], shrinkingPager' 0) \<and>
   seekForwardLine' (shrinkingPager' 0) = Inr (6, shrinkingPager' 6) \<and>
   readLines' (plainEnv 80 2) (shrinkingPager' 6) = Inr ([[[97]]], shrinkingPager' 6) \<and>
   maxFields' (shrinkingPager' 6) = 1 \<and> maxWidth' (shrinkingPager' 6) = 5 \<and>
   windowFields [[[97]]] = 1 \<and> windowWidth [[[97]]] = 1"
proof -
  have m: "maxWidth (shrinkingPager 6 (Some shrinkingScreen)) = [5]"
    "windowWidths [[[97]]] = [1]"
    "maxFields' (shrinkingPager' 6) = 1" "maxWidth' (shrinkingPager' 6) = 5"
    "windowFields [[[97]]] = 1" "windowWidth [[[97]]] = 1"
    by (simp_all add: shrinkingPager_def shrinkingPager'_def windowWidths_def recordWidths_def
        windowFields_def windowWidth_def)
  show ?thesis
    using m renderCSVWindow_shrinking seekForwardN_shrinking [of "Some shrinkingScreen"]
      readLines_shrinking_6 [of "Some shrinkingScreen"] readLines'_shrinking_start
      seekForwardLine'_shrinking readLines'_shrinking_6
    by blast
qed

subsection \<open>A window without records\<close>

lemma getTableLine_empty: "maxWidth p = [] \<Longrightarrow> getTableLine p s m e = [s]"
  by (simp add: getTableLine_def countMaxJoinedLength_def getTableLine_loop.simps)

lemma getTableLine'_empty: "maxFields' p = 0 \<Longrightarrow> getTableLine' p n s m e = [s]"
  by (simp add: getTableLine'_def countMaxJoinedLength'_def getTableLine_loop'.simps)

lemma closeAndClip_single:
  "closeAndClip shift width height footer [header] =
     (if height < 0 then Inl ErrSliceBounds
      else if height = 0 then Inr []
      else clipLines shift width [footer])"
  by (simp add: closeAndClip_def goIndex_def goSlice_def)

lemma readLines_empty:
  "readLines (plainEnv w h) (pagerAt [] 0) = Inr ([], pagerAt [] 0)"
  by (simp add: readLines_def getNewCSVReader_def plainEnv_def pagerAt_def plainCsv_def)

lemma readLines'_empty:
  "readLines' (plainEnv w h) (pagerAt' [] 0) = Inr ([], pagerAt' [] 0)"
  by (simp add: readLines'_def getNewCSVReader_def plainEnv_def pagerAt'_def plainCsv_def)

lemma getPrintableLines_none:
  "getPrintableLines e p [] =
     (if termHeight e < 0 then Inl ErrSliceBounds
      else if termHeight e = 0 then Inr []
      else clipLines (horizontalShift p) (termWidth e) [getTableFooterLine p])"
  by (simp add: getPrintableLines_def termSize_def closeAndClip_single)

lemma getPrintableLines'_none:
  "getPrintableLines' e p [] =
     (if termHeight e < 0 then Inl ErrSliceBounds
      else if termHeight e = 0 then Inr []
      else clipLines (horizontalShift' p) (termWidth e) [getTableFooterLine' p])"
  by (simp add: getPrintableLines'_def termSize_def closeAndClip_single)

lemma getPrintableLines_empty_file:
  "getPrintableLines (plainEnv 80 24) (pagerAt [] 0) [] = Inr [[glyphBottomLeft]]"
  by (simp add: getPrintableLines_none getTableFooterLine_def getTableLine_empty clipLine_def
      goSlice_def plainEnv_def pagerAt_def)

lemma getPrintableLines'_empty_file:
  "getPrintableLines' (plainEnv 80 24) (pagerAt' [] 0) [] = Inr [[glyphBottomLeft]]"
  by (simp add: getPrintableLines'_none getTableFooterLine'_def getTableLine'_empty clipLine_def
      goSlice_def plainEnv_def pagerAt'_def)

text \<open>
  Claim C2 does not hold of the code. With no records the window holds the header alone,
  and the assignment that closes the table, \<^verbatim>\<open>window[len(window)-1] = footer\<close>, replaces
  the header. On a terminal at least one line high the printable lines are one line, the
  footer cut to the width; on a terminal of height 0 there is none, and a negative height
  is a panic. For the empty file on a terminal of 80 by 24 both revisions print the
  footer's left corner alone, where the claim has the header's left corner on a first
  line and the footer's on a second.
\<close>

theorem empty_file_prints_footer_only:
  "getPrintableLines e p [] =
     (if termHeight e < 0 then Inl ErrSliceBounds
      else if termHeight e = 0 then Inr []
      else clipLines (horizontalShift p) (termWidth e) [getTableFooterLine p]) \<and>
   getPrintableLines' e q [] =
     (if termHeight e < 0 then Inl ErrSliceBounds
      else if termHeight e = 0 then Inr []
      else clipLines (horizontalShift' q) (termWidth e) [getTableFooterLine' q]) \<and>
   renderCSVWindow (plainEnv 80 24) (pagerAt [] 0) =
     Inr ((True, [[glyphBottomLeft]]),
          (pagerAt [] 0)\<lparr>prevPrintableLines := Some [[glyphBottomLeft]]\<rparr>) \<and>
   renderCSVWindow' (plainEnv 80 24) (pagerAt' [] 0) =
     Inr ((True, [[glyphBottomLeft]]), pagerAt' [] 0) \<and>
   getTableHeaderLine (pagerAt [] 0) = [glyphTopLeft] \<and>
   getTableHeaderLine' (pagerAt' [] 0) = [glyphTopLeft]"
proof -
  have a: "renderCSVWindow (plainEnv 80 24) (pagerAt [] 0) =
     Inr ((True, [[glyphBottomLeft]]),
          (pagerAt [] 0)\<lparr>prevPrintableLines := Some [[glyphBottomLeft]]\<rparr>)"
    by (simp add: renderCSVWindow_def readLines_empty getPrintableLines_empty_file)
      (simp add: pagerAt_def)
  have b: "renderCSVWindow' (plainEnv 80 24) (pagerAt' [] 0) =
     Inr ((True, [[glyphBottomLeft]]), pagerAt' [] 0)"
    by (simp add: renderCSVWindow'_def readLines'_empty getPrintableLines'_empty_file)
  have c: "getTableHeaderLine (pagerAt [] 0) = [glyphTopLeft]"
    by (simp add: getTableHeaderLine_def getTableLine_empty pagerAt_def)
  have d: "getTableHeaderLine' (pagerAt' [] 0) = [glyphTopLeft]"
    by (simp add: getTableHeaderLine'_def getTableLine'_empty pagerAt'_def)
  show ?thesis
    using a b c d getPrintableLines_none [of e p] getPrintableLines'_none [of e q] by simp
qed

theorem empty_file_prints_footer_only_witness:
  "getPrintableLines (plainEnv 80 24) (pagerAt [] 0) [] = Inr [[glyphBottomLeft]] \<and>
   getPrintableLines' (plainEnv 80 24) (pagerAt' [] 0) [] = Inr [[glyphBottomLeft]] \<and>
   renderCSVWindow (plainEnv 80 24) (pagerAt [] 0) =
     Inr ((True, [[glyphBottomLeft]]),
          (pagerAt [] 0)\<lparr>prevPrintableLines := Some [[glyphBottomLeft]]\<rparr>) \<and>
   renderCSVWindow' (plainEnv 80 24) (pagerAt' [] 0) =
     Inr ((True, [[glyphBottomLeft]]), pagerAt' [] 0)"
  using empty_file_prints_footer_only [of "plainEnv 80 24" "pagerAt [] 0" "pagerAt' [] 0"]
  by (simp add: getTableFooterLine_def getTableLine_empty getTableFooterLine'_def
      getTableLine'_empty clipLine_def goSlice_def plainEnv_def pagerAt_def pagerAt'_def)

subsection \<open>Horizontal clipping\<close>

lemma clipLine_beyond: "int (length pl) < shift \<Longrightarrow> clipLine shift width pl = Inl ErrSliceBounds"
  by (simp add: clipLine_def goSlice_def)

lemma clipLine_inside:
  "0 \<le> shift \<Longrightarrow> shift \<le> int (length pl) \<Longrightarrow> 0 \<le> width \<Longrightarrow>
   clipLine shift width pl = Inr (take (nat width) (drop (nat shift) pl))"
  by (auto simp: clipLine_def goSlice_def min_def take_all_iff)

lemma plainCsv_ragged:
  "plainCsv CHR '','' raggedFile 0 = [Rec [[97], [98], [99]], Rec [[100]]]"
  by (simp add: plainCsv_def raggedFile_def NL_def)

lemma readLines_ragged:
  "fileBytes p = raggedFile \<Longrightarrow> fileOffset p = 0 \<Longrightarrow> maxWidth p = [] \<or> maxWidth p = [1, 1, 1] \<Longrightarrow>
   readLines (plainEnv 3 24) p = Inr ([[[97], [98], [99]], [[100]]], p\<lparr>maxWidth := [1, 1, 1]\<rparr>)"
  by (auto simp: readLines_def getNewCSVReader_def plainEnv_def plainCsv_ragged
      countLinesFitting_def signed_divide_int_def widen_def growTo_def)

lemma readLines'_ragged:
  "fileBytes' p = raggedFile \<Longrightarrow> fileOffset' p = 0 \<Longrightarrow>
   (maxFields' p = 0 \<and> maxWidth' p = 0) \<or> (maxFields' p = 3 \<and> maxWidth' p = 1) \<Longrightarrow>
   readLines' (plainEnv 3 24) p =
     Inr ([[[97], [98], [99]], [[100]]], p\<lparr>currentOffset' := 0, maxFields' := 3, maxWidth' := 1\<rparr>)"
  by (auto simp: readLines'_def getNewCSVReader_def plainEnv_def plainCsv_ragged
      countLinesFitting_def signed_divide_int_def widen'_def)

lemmas table_defs =
  getPrintableLines_def termSize_def getTableHeaderLine_def getTableFooterLine_def
  getDataLine_def getTableLine_def countMaxJoinedLength_def getTableLine_loop.simps
  closeAndClip_def goIndex_def goSlice_def clipLine_def getDataFields_def padString_def
  sumInts_def plainEnv_def

lemmas table_defs' =
  getPrintableLines'_def termSize_def getTableHeaderLine'_def getTableFooterLine'_def
  getDataLine'_def getTableLine'_def countMaxJoinedLength'_def getTableLine_loop'.simps
  closeAndClip_def goIndex_def goSlice_def clipLine_def getDataFields'_def padString_def
  signed_modulo_int_def plainEnv_def

lemma getPrintableLines_ragged_0:
  "getPrintableLines (plainEnv 3 24) (raggedPager 0 prev) [[[97], [98], [99]], [[100]]] =
     Inr raggedScreen"
  by (simp add: table_defs raggedPager_def raggedScreen_def)

lemma getPrintableLines_ragged_2:
  "getPrintableLines (plainEnv 3 24) (raggedPager 2 prev) [[[97], [98], [99]], [[100]]] =
     Inr raggedScreenPanned"
  by (simp add: table_defs raggedPager_def raggedScreenPanned_def)

lemma getPrintableLines_ragged_4:
  "getPrintableLines (plainEnv 3 24) (raggedPager 4 prev) [[[97], [98], [99]], [[100]]] =
     Inl ErrSliceBounds"
  by (simp add: table_defs raggedPager_def)

lemma getPrintableLines'_ragged_0:
  "getPrintableLines' (plainEnv 3 24) (raggedPager' 0) [[[97], [98], [99]], [[100]]] =
     Inr raggedScreen"
  by (simp add: table_defs' raggedPager'_def raggedScreen_def)

lemma getPrintableLines'_ragged_2:
  "getPrintableLines' (plainEnv 3 24) (raggedPager' 2) [[[97], [98], [99]], [[100]]] =
     Inr raggedScreenPanned"
  by (simp add: table_defs' raggedPager'_def raggedScreenPanned_def)

lemma getPrintableLines'_ragged_4:
  "getPrintableLines' (plainEnv 3 24) (raggedPager' 4) [[[97], [98], [99]], [[100]]] =
     Inl ErrSliceBounds"
  by (simp add: table_defs' raggedPager'_def)


lemma moveToRight_ragged_0:
  "moveToRight (plainEnv 3 24) (raggedPager 0 prev) = Inr (raggedPager 2 prev)"
  by (simp add: moveToRight_def termSize_def plainEnv_def countMaxJoinedLength_def
      currentFieldIndex_def goIndex_def raggedPager_def)

lemma moveToRight_ragged_2:
  "moveToRight (plainEnv 3 24) (raggedPager 2 prev) = Inr (raggedPager 4 prev)"
  by (simp add: moveToRight_def termSize_def plainEnv_def countMaxJoinedLength_def
      currentFieldIndex_def goIndex_def raggedPager_def)

lemma moveToRight'_ragged:
  "moveToRight' (plainEnv 3 24) (raggedPager' 0) = raggedPager' 2 \<and>
   moveToRight' (plainEnv 3 24) (raggedPager' 2) = raggedPager' 4"
  by (simp add: moveToRight'_def termSize_def plainEnv_def countMaxJoinedLength'_def
      raggedPager'_def)

lemma utf8Len_ragged:
  "utf8Len [glyphTopMiddle, glyphHorizontal, glyphTopMiddle] =
   utf8Len [glyphTopLeft, glyphHorizontal, glyphTopMiddle]"
  by (simp add: utf8Len_def sumInts_def glyphTopLeft_def glyphTopMiddle_def glyphHorizontal_def)

lemma renderCSVWindow_ragged_start:
  "renderCSVWindow (plainEnv 3 24) (pagerAt raggedFile 0) =
     Inr ((True, raggedScreen), raggedPager 0 (Some raggedScreen))"
proof -
  have r: "readLines (plainEnv 3 24) (pagerAt raggedFile 0) =
      Inr ([[[97], [98], [99]], [[100]]], raggedPager 0 None)"
    by (simp add: readLines_ragged pagerAt_def raggedPager_def)
  show ?thesis
    by (simp add: renderCSVWindow_def r getPrintableLines_ragged_0) (simp add: raggedPager_def)
qed

lemma readLines_raggedPager:
  "readLines (plainEnv 3 24) (raggedPager shift prev) =
     Inr ([[[97], [98], [99]], [[100]]], raggedPager shift prev)"
  by (simp add: readLines_ragged raggedPager_def)

lemma renderCSVWindow_ragged_2:
  "renderCSVWindow (plainEnv 3 24) (raggedPager 2 (Some raggedScreen)) =
     Inr ((False, raggedScreenPanned), raggedPager 2 (Some raggedScreenPanned))"
  by (simp add: renderCSVWindow_def readLines_raggedPager getPrintableLines_ragged_2 Let_def)
    (simp add: raggedPager_def raggedScreen_def raggedScreenPanned_def utf8Len_ragged)

lemma renderCSVWindow_ragged_4:
  "renderCSVWindow (plainEnv 3 24) (raggedPager 4 prev) = Inl ErrSliceBounds"
  by (simp add: renderCSVWindow_def readLines_raggedPager getPrintableLines_ragged_4)

lemma readLines'_raggedPager':
  "readLines' (plainEnv 3 24) (raggedPager' shift) =
     Inr ([[[97], [98], [99]], [[100]]], raggedPager' shift)"
  by (simp add: readLines'_ragged raggedPager'_def)

lemma renderCSVWindow'_ragged_start:
  "renderCSVWindow' (plainEnv 3 24) (pagerAt' raggedFile 0) =
     Inr ((True, raggedScreen), raggedPager' 0)"
proof -
  have r: "readLines' (plainEnv 3 24) (pagerAt' raggedFile 0) =
      Inr ([[[97], [98], [99]], [[100]]], raggedPager' 0)"
    by (simp add: readLines'_ragged pagerAt'_def raggedPager'_def)
  show ?thesis
    by (simp add: renderCSVWindow'_def r getPrintableLines'_ragged_0)
qed

lemma renderCSVWindow'_ragged_2:
  "renderCSVWindow' (plainEnv 3 24) (raggedPager' 2) = Inr ((True, raggedScreenPanned), raggedPager' 2)"
  by (simp add: renderCSVWindow'_def readLines'_raggedPager' getPrintableLines'_ragged_2)

lemma renderCSVWindow'_ragged_4:
  "renderCSVWindow' (plainEnv 3 24) (raggedPager' 4) = Inl ErrSliceBounds"
  by (simp add: renderCSVWindow'_def readLines'_raggedPager' getPrintableLines'_ragged_4)

text \<open>
  Claim C3 does not hold of the code. The clipping
  \<^verbatim>\<open>rpl[p.horizontalShift:min(len(rpl), p.horizontalShift+width)]\<close> bounds the upper index
  only, so a shift beyond the line's length is a slice-bounds panic and not an empty
  string; for a shift inside the line it yields the code points from the shift on, at
  most \<open>width\<close> of them. The panic is reached from the start of the program. The table
  of \<open>raggedFile\<close> (a,b,c, newline, d, newline) is 7 wide, so on a terminal 3 wide two
  right pans move the shift to 4, while the row of the second record, which has one
  field, is 3 code points long: the render after the second pan panics, in both
  revisions.
\<close>

theorem clipping_panics_beyond_line:
  "(int (length pl) < shift \<longrightarrow> clipLine shift width pl = Inl ErrSliceBounds) \<and>
   (0 \<le> shift \<and> shift \<le> int (length pl) \<and> 0 \<le> width \<longrightarrow>
      clipLine shift width pl = Inr (take (nat width) (drop (nat shift) pl))) \<and>
   renderCSVWindow (plainEnv 3 24) (pagerAt raggedFile 0) =
     Inr ((True, raggedScreen), raggedPager 0 (Some raggedScreen)) \<and>
   moveToRight (plainEnv 3 24) (raggedPager 0 (Some raggedScreen)) =
     Inr (raggedPager 2 (Some raggedScreen)) \<and>
   renderCSVWindow (plainEnv 3 24) (raggedPager 2 (Some raggedScreen)) =
     Inr ((False, raggedScreenPanned), raggedPager 2 (Some raggedScreenPanned)) \<and>
   moveToRight (plainEnv 3 24) (raggedPager 2 (Some raggedScreenPanned)) =
     Inr (raggedPager 4 (Some raggedScreenPanned)) \<and>
   renderCSVWindow (plainEnv 3 24) (raggedPager 4 (Some raggedScreenPanned)) =
     Inl ErrSliceBounds \<and>
   renderCSVWindow' (plainEnv 3 24) (pagerAt' raggedFile 0) =
     Inr ((True, raggedScreen), raggedPager' 0) \<and>
   moveToRight' (plainEnv 3 24) (raggedPager' 0) = raggedPager' 2 \<and>
   renderCSVWindow' (plainEnv 3 24) (raggedPager' 2) =
     Inr ((True, raggedScreenPanned), raggedPager' 2) \<and>
   moveToRight' (plainEnv 3 24) (raggedPager' 2) = raggedPager' 4 \<and>
   renderCSVWindow' (plainEnv 3 24) (raggedPager' 4) = Inl ErrSliceBounds"
  using clipLine_beyond [of pl shift width] clipLine_inside [of shift pl width]
    renderCSVWindow_ragged_start moveToRight_ragged_0 [of "Some raggedScreen"]
    renderCSVWindow_ragged_2 moveToRight_ragged_2 [of "Some raggedScreenPanned"]
    renderCSVWindow_ragged_4 [of "Some raggedScreenPanned"]
    renderCSVWindow'_ragged_start moveToRight'_ragged renderCSVWindow'_ragged_2
    renderCSVWindow'_ragged_4
  by blast

theorem clipping_panics_beyond_line_witness:
  "int (length [glyphVertical, 100, glyphVertical]) < 4 \<and>
   clipLine 4 3 [glyphVertical, 100, glyphVertical] = Inl ErrSliceBounds \<and>
   (0::int) \<le> 2 \<and> 2 \<le> int (length [glyphVertical, 100, glyphVertical]) \<and> (0::int) \<le> 3 \<and>
   clipLine 2 3 [glyphVertical, 100, glyphVertical] = Inr [glyphVertical]"
  using clipping_panics_beyond_line [of "[glyphVertical, 100, glyphVertical]" 4 3]
    clipping_panics_beyond_line [of "[glyphVertical, 100, glyphVertical]" 2 3]
  by simp

subsection \<open>Panning right\<close>















subsection \<open>Start of the program\<close>

lemma renderCSVWindow_no_comma: "comma e = [] \<Longrightarrow> renderCSVWindow e p = Inl ErrIndexOutOfRange"
  by (simp add: renderCSVWindow_def readLines_def getNewCSVReader_def)

lemma renderCSVWindow'_no_comma: "comma e = [] \<Longrightarrow> renderCSVWindow' e p = Inl ErrIndexOutOfRange"
  by (simp add: renderCSVWindow'_def readLines'_def getNewCSVReader_def)

text \<open>
  Claim C9 does not hold of the code for the delimiter. \<^verbatim>\<open>main\<close> checks the path only:
  with an empty path it prints the usage message and exits. With a path that opens and
  an empty delimiter it goes on to the first render, where \<^verbatim>\<open>getNewCSVReader\<close> takes
  \<^verbatim>\<open>comma[0]\<close> and panics with an index out of range.
\<close>

theorem empty_delimiter_panics:
  "main fs [] e = UsageExit \<and> main' fs [] e = UsageExit \<and>
   (csvFile \<noteq> [] \<and> fs csvFile = Some bs \<and> comma e = [] \<longrightarrow>
      main fs csvFile e = Panic ErrIndexOutOfRange \<and>
      main' fs csvFile e = Panic ErrIndexOutOfRange)"
  by (simp add: main_def main'_def renderCSVWindow_no_comma renderCSVWindow'_no_comma)

theorem empty_delimiter_panics_witness:
  "''data.csv'' \<noteq> [] \<and>
   (\<lambda>f. if f = ''data.csv'' then Some threeLines else None) ''data.csv'' = Some threeLines \<and>
   comma ((plainEnv 80 24)\<lparr>comma := []\<rparr>) = [] \<and>
   main (\<lambda>f. if f = ''data.csv'' then Some threeLines else None) ''data.csv''
     ((plainEnv 80 24)\<lparr>comma := []\<rparr>) = Panic ErrIndexOutOfRange \<and>
   main' (\<lambda>f. if f = ''data.csv'' then Some threeLines else None) ''data.csv''
     ((plainEnv 80 24)\<lparr>comma := []\<rparr>) = Panic ErrIndexOutOfRange"
  using empty_delimiter_panics [of "\<lambda>f. if f = ''data.csv'' then Some threeLines else None"
      "(plainEnv 80 24)\<lparr>comma := []\<rparr>" "''data.csv''" threeLines]
  by simp

end
